theory Spec2Isabelle
  imports Complex_Main "HOL-Library.AList"
begin

section \<open>Numbers\<close>

text \<open>
  A JavaScript \<^verbatim>\<open>number\<close> is a double: not-a-number, an infinity, or a finite value.
  The two zeros are identified, since the engine never divides by zero and nothing else it
  does tells them apart. \<open>Fin x\<close> is meant for a real \<open>x\<close> that is a double
  (\<open>is_double\<close>); the operations below return only such values.

  Addition, subtraction, multiplication and division are exact operations followed by
  rounding to the nearest double, ties to the even significand: \<open>binade\<close> finds the
  exponent of the argument (from -1022, where the subnormals lie, up to 1024, where the
  result overflows), \<open>ulp\<close> is the spacing of the doubles there, \<open>nearest\<close> the
  nearest multiple of it. A decimal literal of the source denotes the nearest double
  (\<open>lit\<close>).
\<close>

datatype num = NaN | PInf | NInf | Fin real

fun exponent_from :: "nat \<Rightarrow> int \<Rightarrow> real \<Rightarrow> int" where
  "exponent_from 0 e a = e"
| "exponent_from (Suc n) e a =
     (if 2 powi (e + 1) \<le> a then exponent_from n (e + 1) a else e)"

definition binade :: "real \<Rightarrow> int" where
  "binade x = exponent_from 2046 (- 1022) \<bar>x\<bar>"

definition ulp :: "real \<Rightarrow> real" where
  "ulp x = 2 powi (binade x - 52)"

definition round_half_even :: "real \<Rightarrow> int" where
  "round_half_even r =
     (let f = \<lfloor>r\<rfloor>; d = r - of_int f
      in if d < 1 / 2 then f else if 1 / 2 < d then f + 1
         else if even f then f else f + 1)"

definition nearest :: "real \<Rightarrow> real" where
  "nearest x = sgn x * (of_int (round_half_even (\<bar>x\<bar> / ulp x)) * ulp x)"

definition rnd :: "real \<Rightarrow> num" where
  "rnd x =
     (if 2 ^ 1024 \<le> nearest x then PInf
      else if nearest x \<le> - (2 ^ 1024) then NInf
      else Fin (nearest x))"

definition is_double :: "real \<Rightarrow> bool" where
  "is_double x = (nearest x = x \<and> \<bar>x\<bar> < 2 ^ 1024)"

definition lit :: "real \<Rightarrow> num" where
  "lit x = rnd x"

fun neg_n :: "num \<Rightarrow> num" where
  "neg_n NaN = NaN"
| "neg_n PInf = NInf"
| "neg_n NInf = PInf"
| "neg_n (Fin x) = Fin (- x)"

fun add_n :: "num \<Rightarrow> num \<Rightarrow> num" where
  "add_n (Fin x) (Fin y) = rnd (x + y)"
| "add_n NaN b = NaN"
| "add_n a NaN = NaN"
| "add_n PInf NInf = NaN"
| "add_n NInf PInf = NaN"
| "add_n PInf b = PInf"
| "add_n NInf b = NInf"
| "add_n a PInf = PInf"
| "add_n a NInf = NInf"

definition sub_n :: "num \<Rightarrow> num \<Rightarrow> num" where
  "sub_n a b = add_n a (neg_n b)"

fun sign_n :: "num \<Rightarrow> bool" where
  "sign_n NInf = True"
| "sign_n (Fin x) = (x < 0)"
| "sign_n a = False"
  \<comment> \<open>whether the number is negative\<close>

definition inf_of :: "bool \<Rightarrow> num" where
  "inf_of negative = (if negative then NInf else PInf)"

fun mul_n :: "num \<Rightarrow> num \<Rightarrow> num" where
  "mul_n (Fin x) (Fin y) = rnd (x * y)"
| "mul_n NaN b = NaN"
| "mul_n a NaN = NaN"
| "mul_n (Fin x) b = (if x = 0 then NaN else inf_of (sign_n (Fin x) \<noteq> sign_n b))"
| "mul_n a (Fin y) = (if y = 0 then NaN else inf_of (sign_n a \<noteq> sign_n (Fin y)))"
| "mul_n a b = inf_of (sign_n a \<noteq> sign_n b)"

fun div_n :: "num \<Rightarrow> num \<Rightarrow> num" where
  "div_n (Fin x) (Fin y) =
     (if y = 0 then (if x = 0 then NaN else inf_of (x < 0)) else rnd (x / y))"
| "div_n NaN b = NaN"
| "div_n a NaN = NaN"
| "div_n (Fin x) b = Fin 0"
| "div_n a (Fin y) = inf_of (sign_n a \<noteq> sign_n (Fin y))"
| "div_n a b = NaN"
  \<comment> \<open>a zero divisor stands for +0; the engine guards every division against it\<close>

fun lt_n :: "num \<Rightarrow> num \<Rightarrow> bool" where
  "lt_n (Fin x) (Fin y) = (x < y)"
| "lt_n NaN b = False"
| "lt_n a NaN = False"
| "lt_n NInf NInf = False"
| "lt_n NInf b = True"
| "lt_n a PInf = (a \<noteq> PInf)"
| "lt_n a b = False"

definition gt_n :: "num \<Rightarrow> num \<Rightarrow> bool" where
  "gt_n a b = lt_n b a"

fun abs_n :: "num \<Rightarrow> num" where
  "abs_n NaN = NaN"
| "abs_n PInf = PInf"
| "abs_n NInf = PInf"
| "abs_n (Fin x) = Fin \<bar>x\<bar>"

definition max_n :: "num \<Rightarrow> num \<Rightarrow> num" where
  "max_n a b = (if a = NaN \<or> b = NaN then NaN else if lt_n a b then b else a)"

definition min_n :: "num \<Rightarrow> num \<Rightarrow> num" where
  "min_n a b = (if a = NaN \<or> b = NaN then NaN else if lt_n b a then b else a)"

text \<open>
  \<^verbatim>\<open>Math.sqrt\<close> and \<^verbatim>\<open>Math.pow\<close> return values that the language leaves to the
  implementation to approximate; they are parameters of the model.
\<close>

record platform =
  math_sqrt :: "num \<Rightarrow> num"
  math_pow :: "num \<Rightarrow> num \<Rightarrow> num"

section \<open>Data model\<close>

text \<open>
  The engine of \<^verbatim>\<open>void-engine.ts\<close> exists in two variants (two classes named
  \<^verbatim>\<open>VoidEngine\<close>); they are called variant A (star count, micro window 20, thin
  volume held) and variant B (trap/break, micro window 15, thin volume reset).

  The \<^verbatim>\<open>titans\<close> field holds a reference to an array. Arrays live in a heap, a
  list of cells addressed by position; an array literal allocates the next cell. The
  row objects of an array are reachable through that array only, so a cell holds the
  rows by value.
\<close>

type_synonym ref = nat

datatype display = Text string | ToFixed num nat
  \<comment> \<open>\<open>ToFixed x d\<close> stands for the string \<^verbatim>\<open>x.toFixed(d)\<close>\<close>

record TitanStatus =
  name :: string
  display_value :: display
  active :: bool

type_synonym heap = "TitanStatus list list"

record VoidState =
  price :: num
  void_elasticity :: num
  void_pressure :: num
  void_kinetic :: num
  domain_state :: string
  signal :: string
  monolith_stars :: nat
  titans :: ref

record trade =
  trade_p :: num
  trade_q :: num
  trade_b :: bool
  trade_t :: num

type_synonym book = "(num \<times> num) list"
  \<comment> \<open>a \<^verbatim>\<open>Map<number, number>\<close>: entries in insertion order, keys distinct\<close>

record VoidEngine =
  state :: VoidState
  trades :: "trade list"
  book_bids :: book
  book_asks :: book
  imbalance_hist :: "num list"
  onUpdate :: bool
  \<comment> \<open>\<open>onUpdate\<close>: whether a subscriber callback is registered (\<^verbatim>\<open>null\<close> otherwise)\<close>

datatype variant = VariantA | VariantB

definition initial_titans_A :: "TitanStatus list" where
  "initial_titans_A =
     [\<lparr>name = ''CTD (Kinetic)'', display_value = Text ''0'', active = False\<rparr>,
      \<lparr>name = ''OBI (Pressure)'', display_value = Text ''0.0'', active = False\<rparr>,
      \<lparr>name = ''LQ  (Elasticity)'', display_value = Text ''0.0'', active = False\<rparr>,
      \<lparr>name = ''BASIS'', display_value = Text ''0.0%'', active = True\<rparr>,
      \<lparr>name = ''WA  (Volume)'', display_value = Text ''---'', active = False\<rparr>]"

definition initial_state :: VoidState where
  "initial_state =
     \<lparr>price = lit 0, void_elasticity = lit 0, void_pressure = lit 0, void_kinetic = lit 0,
      domain_state = ''CALCULATING'', signal = ''STANDBY'', monolith_stars = 0,
      titans = 0\<rparr>"

definition new_VoidEngine :: "variant \<Rightarrow> bool \<Rightarrow> heap \<times> VoidEngine" where
  "new_VoidEngine v subscriber =
     ([case v of VariantA \<Rightarrow> initial_titans_A | VariantB \<Rightarrow> []],
      \<lparr>state = initial_state, trades = [], book_bids = [], book_asks = [],
       imbalance_hist = [], onUpdate = subscriber\<rparr>)"

section \<open>Rolling trade window\<close>

definition truthy :: "bool option \<Rightarrow> bool" where
  "truthy x = (case x of None \<Rightarrow> False | Some y \<Rightarrow> y)"
  \<comment> \<open>\<^verbatim>\<open>data.m\<close>: \<open>None\<close> when the field is absent (\<^verbatim>\<open>undefined\<close>), else
      whether its value is truthy\<close>

definition slice_last :: "nat \<Rightarrow> 'a list \<Rightarrow> 'a list" where
  "slice_last n xs = drop (length xs - n) xs"
  \<comment> \<open>\<^verbatim>\<open>xs.slice(-n)\<close>\<close>

definition sum_q :: "trade list \<Rightarrow> num" where
  "sum_q ts = fold (\<lambda>t sum. add_n sum (trade_q t)) ts (lit 0)"
  \<comment> \<open>\<^verbatim>\<open>ts.reduce((sum, t) => sum + t.q, 0)\<close>\<close>

text \<open>
  \<open>date_now\<close> is what \<^verbatim>\<open>Date.now()\<close> returns during the call, an integer number
  of milliseconds.
\<close>

definition processTrade_A ::
  "num \<Rightarrow> num \<Rightarrow> bool option \<Rightarrow> int \<Rightarrow> VoidEngine \<Rightarrow> VoidEngine" where
  "processTrade_A p q is_buyer_maker date_now e =
     (let is_buyer = \<not> truthy is_buyer_maker;
          st1 = (state e)\<lparr>price := p\<rparr>;
          t_now = div_n (Fin (of_int date_now)) (lit 1000);
          ts1 = trades e @ [\<lparr>trade_p = p, trade_q = q, trade_b = is_buyer, trade_t = t_now\<rparr>];
          ts2 = (if length ts1 > 1000 then tl ts1 else ts1);
          recent = filter (\<lambda>t. gt_n (trade_t t) (sub_n t_now (lit 3))) ts2;
          buy_vol = sum_q (filter (\<lambda>t. trade_b t) recent);
          sell_vol = sum_q (filter (\<lambda>t. \<not> trade_b t) recent);
          st2 = st1\<lparr>void_kinetic := sub_n buy_vol sell_vol\<rparr>;
          micro = slice_last 20 ts2;
          st3 = (if length micro > 1 then
                   (let micro_price_delta = sub_n (trade_p (last micro)) (trade_p (hd micro));
                        micro_vol = sum_q micro
                    in if gt_n micro_vol (lit 0.01)
                       then st2\<lparr>void_elasticity :=
                                  mul_n (div_n micro_price_delta micro_vol) (lit 10000)\<rparr>
                       else st2)
                 else st2)
      in e\<lparr>state := st3, trades := ts2\<rparr>)"

definition processTrade_B ::
  "num \<Rightarrow> num \<Rightarrow> bool option \<Rightarrow> int \<Rightarrow> VoidEngine \<Rightarrow> VoidEngine" where
  "processTrade_B p q is_buyer_maker date_now e =
     (let is_buyer = \<not> truthy is_buyer_maker;
          st1 = (state e)\<lparr>price := p\<rparr>;
          t_now = div_n (Fin (of_int date_now)) (lit 1000);
          ts1 = trades e @ [\<lparr>trade_p = p, trade_q = q, trade_b = is_buyer, trade_t = t_now\<rparr>];
          ts2 = (if length ts1 > 1000 then tl ts1 else ts1);
          recent = filter (\<lambda>t. gt_n (trade_t t) (sub_n t_now (lit 3))) ts2;
          buy_vol = sum_q (filter (\<lambda>t. trade_b t) recent);
          sell_vol = sum_q (filter (\<lambda>t. \<not> trade_b t) recent);
          st2 = st1\<lparr>void_kinetic := sub_n buy_vol sell_vol\<rparr>;
          micro = slice_last 15 ts2;
          st3 = (if length micro > 1 then
                   (let micro_price_delta = sub_n (trade_p (last micro)) (trade_p (hd micro));
                        micro_vol = sum_q micro
                    in if gt_n micro_vol (lit 0.01)
                       then st2\<lparr>void_elasticity :=
                                  mul_n (div_n micro_price_delta micro_vol) (lit 10000)\<rparr>
                       else st2\<lparr>void_elasticity := lit 0\<rparr>)
                 else st2)
      in e\<lparr>state := st3, trades := ts2\<rparr>)"

definition processTrade ::
  "variant \<Rightarrow> num \<Rightarrow> num \<Rightarrow> bool option \<Rightarrow> int \<Rightarrow> VoidEngine \<Rightarrow> VoidEngine" where
  "processTrade v = (case v of VariantA \<Rightarrow> processTrade_A | VariantB \<Rightarrow> processTrade_B)"

section \<open>Order book mirror\<close>

datatype js_error = SyntaxError | TypeError

text \<open>
  An entry of an update array is destructured as \<^verbatim>\<open>[p, q]\<close>. \<open>Level p q\<close> is an
  entry that can be destructured, given by the numbers \<^verbatim>\<open>parseFloat\<close> returns for
  its first two elements (\<open>NaN\<close> for a missing or non-numeric one). \<open>NotIterable\<close>
  is an entry that cannot (\<^verbatim>\<open>null\<close>, a number, an object): the destructuring raises
  a \<^verbatim>\<open>TypeError\<close>, and the loop stops with the earlier entries applied.
\<close>

datatype level = Level num num | NotIterable

fun apply_side :: "level list \<Rightarrow> book \<Rightarrow> js_error option \<times> book" where
  "apply_side [] m = (None, m)"
| "apply_side (Level p q # us) m =
     apply_side us (if q = Fin 0 then AList.delete p m else AList.update p q m)"
| "apply_side (NotIterable # us) m = (Some TypeError, m)"
  \<comment> \<open>the \<^verbatim>\<open>forEach\<close> over one side's update entries\<close>

definition max_keys :: "num list \<Rightarrow> num" where
  "max_keys ks = fold (\<lambda>k best. max_n best k) ks NInf"
  \<comment> \<open>\<^verbatim>\<open>Math.max(...keys)\<close>\<close>

definition min_keys :: "num list \<Rightarrow> num" where
  "min_keys ks = fold (\<lambda>k best. min_n best k) ks PInf"

definition get_or_0 :: "book \<Rightarrow> num \<Rightarrow> num" where
  "get_or_0 m k =
     (case map_of m k of None \<Rightarrow> lit 0
      | Some x \<Rightarrow> if x = NaN \<or> x = Fin 0 then lit 0 else x)"
  \<comment> \<open>\<^verbatim>\<open>m.get(k) || 0\<close>\<close>

definition push_hist :: "num \<Rightarrow> num list \<Rightarrow> num list" where
  "push_hist r hist = (let h1 = hist @ [r] in if length h1 > 120 then tl h1 else h1)"

text \<open>
  An argument of \<open>processBook\<close> is \<open>None\<close> when the message has no such array:
  \<^verbatim>\<open>forEach\<close> on \<^verbatim>\<open>undefined\<close> raises a \<^verbatim>\<open>TypeError\<close>. The result pairs the error,
  if any, with the engine as the call leaves it.
\<close>

definition processBook ::
  "level list option \<Rightarrow> level list option \<Rightarrow> VoidEngine \<Rightarrow> js_error option \<times> VoidEngine" where
  "processBook bids asks e =
     (case bids of
        None \<Rightarrow> (Some TypeError, e)
      | Some bs \<Rightarrow>
          (let r1 = apply_side bs (book_bids e);
               e1 = e\<lparr>book_bids := snd r1\<rparr>
           in case fst r1 of
                Some err \<Rightarrow> (Some err, e1)
              | None \<Rightarrow>
                  (case asks of
                     None \<Rightarrow> (Some TypeError, e1)
                   | Some as \<Rightarrow>
                       (let r2 = apply_side as (book_asks e1);
                            e2 = e1\<lparr>book_asks := snd r2\<rparr>
                        in case fst r2 of
                             Some err \<Rightarrow> (Some err, e2)
                           | None \<Rightarrow>
                               if length (book_bids e2) = 0 \<or> length (book_asks e2) = 0
                               then (None, e2)
                               else
                                 (let best_bid = max_keys (map fst (book_bids e2));
                                      best_ask = min_keys (map fst (book_asks e2));
                                      l1_bid_vol = get_or_0 (book_bids e2) best_bid;
                                      l1_ask_vol = get_or_0 (book_asks e2) best_ask;
                                      denominator = add_n l1_bid_vol l1_ask_vol;
                                      ratio =
                                        (if gt_n denominator (lit 0)
                                         then div_n (sub_n l1_bid_vol l1_ask_vol) denominator
                                         else lit 0)
                                  in (None,
                                      e2\<lparr>state := (state e2)\<lparr>void_pressure := ratio\<rparr>,
                                         imbalance_hist :=
                                           push_hist ratio (imbalance_hist e2)\<rparr>))))))"

section \<open>Regime classifier\<close>

definition mean_of :: "num list \<Rightarrow> num" where
  "mean_of hist = div_n (fold (\<lambda>b a. add_n a b) hist (lit 0)) (Fin (real (length hist)))"

definition variance_of :: "platform \<Rightarrow> num list \<Rightarrow> num" where
  "variance_of pl hist =
     (let mean = mean_of hist
      in div_n (fold (\<lambda>b a. add_n a (math_pow pl (sub_n b mean) (lit 2))) hist (lit 0))
           (Fin (real (length hist))))"

definition updateRegime_A :: "platform \<Rightarrow> VoidEngine \<Rightarrow> VoidEngine" where
  "updateRegime_A pl e =
     (if length (imbalance_hist e) > 10 then
        (let volatility = math_sqrt pl (variance_of pl (imbalance_hist e))
         in if lt_n volatility (lit 0.1)
              then e\<lparr>state := (state e)\<lparr>domain_state := ''STAGNATION''\<rparr>\<rparr>
            else if lt_n volatility (lit 0.35)
              then e\<lparr>state := (state e)\<lparr>domain_state := ''EQUILIBRIUM''\<rparr>\<rparr>
            else e\<lparr>state := (state e)\<lparr>domain_state := ''VOLATILITY''\<rparr>\<rparr>)
      else e)"

definition updateRegime_B :: "platform \<Rightarrow> VoidEngine \<Rightarrow> VoidEngine" where
  "updateRegime_B pl e =
     (if length (imbalance_hist e) > 10 then
        (let volatility = math_sqrt pl (variance_of pl (imbalance_hist e))
         in if lt_n volatility (lit 0.1)
              then e\<lparr>state := (state e)\<lparr>domain_state := ''STAGNANT''\<rparr>\<rparr>
            else if lt_n volatility (lit 0.4)
              then e\<lparr>state := (state e)\<lparr>domain_state := ''STABLE''\<rparr>\<rparr>
            else e\<lparr>state := (state e)\<lparr>domain_state := ''VOLATILE''\<rparr>\<rparr>)
      else e)"

definition updateRegime :: "platform \<Rightarrow> variant \<Rightarrow> VoidEngine \<Rightarrow> VoidEngine" where
  "updateRegime pl v =
     (case v of VariantA \<Rightarrow> updateRegime_A pl | VariantB \<Rightarrow> updateRegime_B pl)"

section \<open>Verdict aggregator\<close>

definition calculateMonolith_A :: "heap \<times> VoidEngine \<Rightarrow> heap \<times> VoidEngine" where
  "calculateMonolith_A w =
     (let h = fst w; e = snd w;
          k = void_kinetic (state e);
          p = void_pressure (state e);
          el = void_elasticity (state e);
          d = domain_state (state e);
          stars0 = (0::nat);
          ctd_active = gt_n (abs_n k) (lit 50);
          stars1 = (if ctd_active then stars0 + 1 else stars0);
          obi_active = gt_n (abs_n p) (lit 0.3);
          stars2 = (if obi_active then stars1 + 1 else stars1);
          lq_active = gt_n (abs_n el) (lit 2);
          stars3 = (if lq_active then stars2 + 1 else stars2);
          regime_active = (d = ''VOLATILITY'');
          stars4 = (if regime_active then stars3 + 1 else stars3);
          wa_active = ((gt_n k (lit 0) \<and> gt_n p (lit 0)) \<or> (lt_n k (lit 0) \<and> lt_n p (lit 0)));
          stars = (if wa_active then stars4 + 1 else stars4);
          rows =
            [\<lparr>name = ''CTD (Kinetic)'', display_value = ToFixed k 1, active = ctd_active\<rparr>,
             \<lparr>name = ''OBI (Pressure)'', display_value = ToFixed p 2, active = obi_active\<rparr>,
             \<lparr>name = ''LQ  (Elasticity)'', display_value = ToFixed el 2, active = lq_active\<rparr>,
             \<lparr>name = ''BASIS'', display_value = Text ''0.01%'', active = True\<rparr>,
             \<lparr>name = ''WA  (Whale)'',
              display_value = Text (if wa_active then ''DETECTED'' else ''---''),
              active = wa_active\<rparr>];
          st1 = (state e)\<lparr>monolith_stars := stars, titans := length h\<rparr>;
          st2 = (if stars \<ge> 4 then
                   (if gt_n k (lit 0) then st1\<lparr>signal := ''EXECUTE LONG''\<rparr>
                    else st1\<lparr>signal := ''EXECUTE SHORT''\<rparr>)
                 else if stars = 3 then st1\<lparr>signal := ''PREPARE''\<rparr>
                 else st1\<lparr>signal := ''STANDBY''\<rparr>)
      in (h @ [rows], e\<lparr>state := st2\<rparr>))"

definition calculateMonolith_B :: "heap \<times> VoidEngine \<Rightarrow> heap \<times> VoidEngine" where
  "calculateMonolith_B w =
     (let h = fst w; e = snd w;
          k = void_kinetic (state e);
          p = void_pressure (state e);
          el = void_elasticity (state e);
          stars0 = (0::nat);
          ctd_active = gt_n (abs_n k) (lit 50);
          stars1 = (if ctd_active then stars0 + 1 else stars0);
          obi_active = gt_n (abs_n p) (lit 0.3);
          stars2 = (if obi_active then stars1 + 1 else stars1);
          lq_active = gt_n (abs_n el) (lit 2);
          stars3 = (if lq_active then stars2 + 1 else stars2);
          regime_active = (domain_state (state e) = ''VOLATILE'');
          stars = (if regime_active then stars3 + 1 else stars3);
          st1 = (state e)\<lparr>monolith_stars := stars\<rparr>;
          st2 = (if gt_n k (lit 50) \<and> lt_n el (lit 0.5) then st1\<lparr>signal := ''SHORT (TRAP)''\<rparr>
                 else if gt_n k (lit 50) \<and> gt_n el (lit 2)
                   then st1\<lparr>signal := ''LONG (BREAK)''\<rparr>
                 else if lt_n k (neg_n (lit 50)) \<and> gt_n el (neg_n (lit 0.5))
                   then st1\<lparr>signal := ''LONG (TRAP)''\<rparr>
                 else if lt_n k (neg_n (lit 50)) \<and> lt_n el (neg_n (lit 2))
                   then st1\<lparr>signal := ''SHORT (BREAK)''\<rparr>
                 else st1\<lparr>signal := ''OBSERVE''\<rparr>);
          rows =
            [\<lparr>name = ''CTD (Kinetic)'', display_value = ToFixed k 1, active = ctd_active\<rparr>,
             \<lparr>name = ''OBI (Pressure)'', display_value = ToFixed p 2, active = obi_active\<rparr>,
             \<lparr>name = ''LQ  (Elasticity)'', display_value = ToFixed el 2, active = lq_active\<rparr>,
             \<lparr>name = ''BASIS'', display_value = Text ''---'', active = False\<rparr>,
             \<lparr>name = ''WA'', display_value = Text ''---'', active = False\<rparr>]
      in (h @ [rows], e\<lparr>state := st2\<lparr>titans := length h\<rparr>\<rparr>))"

definition calculateMonolith :: "variant \<Rightarrow> heap \<times> VoidEngine \<Rightarrow> heap \<times> VoidEngine" where
  "calculateMonolith v =
     (case v of VariantA \<Rightarrow> calculateMonolith_A | VariantB \<Rightarrow> calculateMonolith_B)"

section \<open>Feed handler and snapshot publisher\<close>

text \<open>
  A feed message is given by what the handler reads from it. \<open>Unparseable\<close>:
  \<^verbatim>\<open>JSON.parse\<close> raises. \<open>NoStream\<close>: the payload is \<^verbatim>\<open>null\<close> or its
  \<^verbatim>\<open>stream\<close> has no \<^verbatim>\<open>includes\<close> method, so reading or calling it raises.
  \<open>TradeMsg\<close>: \<^verbatim>\<open>stream.includes('aggTrade')\<close> holds. \<open>DepthMsg\<close>: it does not,
  and \<^verbatim>\<open>stream.includes('depth')\<close> holds. \<open>OtherMsg\<close>: neither holds. The
  argument is the \<^verbatim>\<open>data\<close> member, \<open>None\<close> when it is absent or \<^verbatim>\<open>null\<close>, so
  that reading a field of it raises. \<open>data_p\<close> and \<open>data_q\<close> are the numbers
  \<^verbatim>\<open>parseFloat\<close> returns for the fields \<^verbatim>\<open>p\<close> and \<^verbatim>\<open>q\<close>, \<open>NaN\<close> for a missing
  or non-numeric one. \<open>data_b\<close> and \<open>data_a\<close> are \<open>None\<close> when the field is not an
  array.
\<close>

record trade_data =
  data_p :: num
  data_q :: num
  data_m :: "bool option"

record depth_data =
  data_b :: "level list option"
  data_a :: "level list option"

datatype message =
    Unparseable
  | NoStream
  | TradeMsg "trade_data option"
  | DepthMsg "depth_data option"
  | OtherMsg

datatype outcome = Threw js_error | Published VoidState | NotPublished

definition publish ::
  "platform \<Rightarrow> variant \<Rightarrow> heap \<times> VoidEngine \<Rightarrow> (heap \<times> VoidEngine) \<times> outcome" where
  "publish pl v w =
     (let w1 = calculateMonolith v (fst w, updateRegime pl v (snd w))
      in (w1, if onUpdate (snd w1) then Published (state (snd w1)) else NotPublished))"
  \<comment> \<open>the tail of the handler; \<^verbatim>\<open>{...this.state}\<close> copies the fields, the
      \<open>titans\<close> reference among them\<close>

fun onmessage ::
  "platform \<Rightarrow> variant \<Rightarrow> int \<Rightarrow> message \<Rightarrow> heap \<times> VoidEngine
     \<Rightarrow> (heap \<times> VoidEngine) \<times> outcome" where
  "onmessage pl v date_now Unparseable w = (w, Threw SyntaxError)"
| "onmessage pl v date_now NoStream w = (w, Threw TypeError)"
| "onmessage pl v date_now (TradeMsg None) w = (w, Threw TypeError)"
| "onmessage pl v date_now (TradeMsg (Some d)) w =
     publish pl v (fst w, processTrade v (data_p d) (data_q d) (data_m d) date_now (snd w))"
| "onmessage pl v date_now (DepthMsg None) w = (w, Threw TypeError)"
| "onmessage pl v date_now (DepthMsg (Some d)) w =
     (case processBook (data_b d) (data_a d) (snd w) of
        (Some err, e1) \<Rightarrow> ((fst w, e1), Threw err)
      | (None, e1) \<Rightarrow> publish pl v (fst w, e1))"
| "onmessage pl v date_now OtherMsg w = publish pl v w"

fun run ::
  "platform \<Rightarrow> variant \<Rightarrow> (int \<times> message) list \<Rightarrow> heap \<times> VoidEngine
     \<Rightarrow> (heap \<times> VoidEngine) \<times> VoidState list" where
  "run pl v [] w = (w, [])"
| "run pl v ((date_now, m) # evs) w =
     (let r = onmessage pl v date_now m w; rest = run pl v evs (fst r)
      in (fst rest,
          (case snd r of Published s \<Rightarrow> [s] | _ \<Rightarrow> []) @ snd rest))"
  \<comment> \<open>the engine after a sequence of deliveries, with the snapshots handed out, oldest first\<close>

section \<open>Subscribers\<close>

text \<open>
  What a holder of a snapshot can do to it: assign one of its scalar fields, or mutate
  in place the array its \<open>titans\<close> field refers to (\<open>SetTitansRows\<close> leaves the
  array holding the given rows, whatever sequence of pushes and element writes led there).
\<close>

datatype mutation =
    SetPrice num | SetElasticity num | SetPressure num | SetKinetic num
  | SetDomainState string | SetSignal string | SetStars nat
  | SetTitansRows "TitanStatus list"

fun mutate :: "mutation \<Rightarrow> heap \<times> VoidState \<Rightarrow> heap \<times> VoidState" where
  "mutate (SetPrice x) (h, s) = (h, s\<lparr>price := x\<rparr>)"
| "mutate (SetElasticity x) (h, s) = (h, s\<lparr>void_elasticity := x\<rparr>)"
| "mutate (SetPressure x) (h, s) = (h, s\<lparr>void_pressure := x\<rparr>)"
| "mutate (SetKinetic x) (h, s) = (h, s\<lparr>void_kinetic := x\<rparr>)"
| "mutate (SetDomainState x) (h, s) = (h, s\<lparr>domain_state := x\<rparr>)"
| "mutate (SetSignal x) (h, s) = (h, s\<lparr>signal := x\<rparr>)"
| "mutate (SetStars x) (h, s) = (h, s\<lparr>monolith_stars := x\<rparr>)"
| "mutate (SetTitansRows rows) (h, s) = (h[titans s := rows], s)"

fun array_mutation :: "mutation \<Rightarrow> bool" where
  "array_mutation (SetTitansRows rows) = True"
| "array_mutation _ = False"

definition snapshot_view :: "heap \<Rightarrow> VoidState \<Rightarrow> VoidState \<times> TitanStatus list" where
  "snapshot_view h s = (s, h ! titans s)"
  \<comment> \<open>what a reader of the snapshot sees: its fields and the rows of its array\<close>

definition engine_view :: "heap \<times> VoidEngine \<Rightarrow> VoidEngine \<times> TitanStatus list" where
  "engine_view w = (snd w, fst w ! titans (state (snd w)))"
  \<comment> \<open>the engine's internal state, the rows of its current array included\<close>

section \<open>The specification's terms\<close>

text \<open>
  A platform whose square root and whose square are correctly rounded, for the examples.
  The engine calls \<^verbatim>\<open>Math.pow\<close> with the exponent 2 only.
\<close>

definition sqrt_n :: "num \<Rightarrow> num" where
  "sqrt_n a =
     (case a of Fin x \<Rightarrow> if x < 0 then NaN else rnd (sqrt x) | PInf \<Rightarrow> PInf | _ \<Rightarrow> NaN)"

definition square_n :: "num \<Rightarrow> num \<Rightarrow> num" where
  "square_n a b = (if b = Fin 2 then mul_n a a else NaN)"

definition reference_platform :: platform where
  "reference_platform = \<lparr>math_sqrt = sqrt_n, math_pow = square_n\<rparr>"

definition in_unit :: "num \<Rightarrow> bool" where
  "in_unit a = (case a of Fin r \<Rightarrow> - 1 \<le> r \<and> r \<le> 1 | _ \<Rightarrow> False)"
  \<comment> \<open>a number of the interval [-1, 1]\<close>

definition finite_n :: "num \<Rightarrow> bool" where
  "finite_n a = (case a of Fin x \<Rightarrow> True | _ \<Rightarrow> False)"

definition finite_nonneg :: "num \<Rightarrow> bool" where
  "finite_nonneg a = (case a of Fin x \<Rightarrow> 0 \<le> x \<and> is_double x | _ \<Rightarrow> False)"
  \<comment> \<open>a finite double that is not negative\<close>

definition star_count_signal :: "nat \<Rightarrow> num \<Rightarrow> string" where
  "star_count_signal score k =
     (if score \<ge> 4 then (if gt_n k (lit 0) then ''EXECUTE LONG'' else ''EXECUTE SHORT'')
      else if score = 3 then ''PREPARE'' else ''STANDBY'')"

definition verdict_inv_A :: "heap \<times> VoidEngine \<Rightarrow> bool" where
  "verdict_inv_A w =
     (signal (state (snd w)) =
        star_count_signal (monolith_stars (state (snd w))) (void_kinetic (state (snd w))))"

definition trap_break_signal :: "num \<Rightarrow> num \<Rightarrow> string" where
  "trap_break_signal k el =
     (if gt_n k (lit 50) \<and> lt_n el (lit 0.5) then ''SHORT (TRAP)''
      else if gt_n k (lit 50) \<and> gt_n el (lit 2) then ''LONG (BREAK)''
      else if lt_n k (neg_n (lit 50)) \<and> gt_n el (neg_n (lit 0.5)) then ''LONG (TRAP)''
      else if lt_n k (neg_n (lit 50)) \<and> lt_n el (neg_n (lit 2)) then ''SHORT (BREAK)''
      else ''OBSERVE'')"

definition timestamp :: "int \<Rightarrow> num" where
  "timestamp date_now = div_n (Fin (of_int date_now)) (lit 1000)"
  \<comment> \<open>the event's timestamp in seconds\<close>

definition buffered :: "trade list \<Rightarrow> trade \<Rightarrow> trade list" where
  "buffered ts t = (let ts1 = ts @ [t] in if length ts1 > 1000 then tl ts1 else ts1)"
  \<comment> \<open>the buffer with one more trade, the oldest dropped beyond 1000\<close>

definition in_window :: "int \<Rightarrow> trade \<Rightarrow> bool" where
  "in_window date_now t = gt_n (trade_t t) (sub_n (timestamp date_now) (lit 3))"

definition sum_in_order :: "num list \<Rightarrow> num" where
  "sum_in_order xs = fold (\<lambda>x s. add_n s x) xs (lit 0)"
  \<comment> \<open>the sum of doubles, added up from 0 in the order of the list\<close>

definition net_flow :: "int \<Rightarrow> trade list \<Rightarrow> num" where
  "net_flow date_now ts =
     sub_n (sum_in_order (map trade_q (filter (\<lambda>t. trade_b t \<and> in_window date_now t) ts)))
           (sum_in_order (map trade_q (filter (\<lambda>t. \<not> trade_b t \<and> in_window date_now t) ts)))"

definition micro_window :: "variant \<Rightarrow> nat" where
  "micro_window v = (case v of VariantA \<Rightarrow> 20 | VariantB \<Rightarrow> 15)"

definition on_thin_volume :: "variant \<Rightarrow> num \<Rightarrow> num" where
  "on_thin_volume v previous = (case v of VariantA \<Rightarrow> previous | VariantB \<Rightarrow> lit 0)"
  \<comment> \<open>hold in variant A, reset to zero in variant B\<close>

definition micro_burst :: "trade list \<Rightarrow> num" where
  "micro_burst micro =
     mul_n (div_n (sub_n (trade_p (last micro)) (trade_p (hd micro)))
                  (sum_in_order (map trade_q micro)))
           (lit 10000)"

definition one_trade :: "variant \<Rightarrow> VoidEngine" where
  "one_trade v =
     processTrade v (lit 100) (lit 0.005) (Some False) 0 (snd (new_VoidEngine v False))"

definition boundary_engine :: "variant \<Rightarrow> VoidEngine" where
  "boundary_engine v = processTrade v (lit 101) (lit 0.005) (Some False) 0 (one_trade v)"
  \<comment> \<open>two buys of 0.005 each, at 100 and at 101: the micro volume is the double 0.01\<close>

definition two_trades :: "variant \<Rightarrow> VoidEngine" where
  "two_trades v =
     processTrade v (lit 101) (lit 1) (Some False) 0
       (processTrade v (lit 100) (lit 1) (Some False) 0 (snd (new_VoidEngine v False)))"

definition thin_trades :: "variant \<Rightarrow> VoidEngine" where
  "thin_trades v =
     processTrade v (lit 102) (lit 0.001) (Some False) 0
       (processTrade v (lit 101) (lit 0.003) (Some False) 0
          (processTrade v (lit 100) (lit 0.006) (Some False) 0
             (snd (new_VoidEngine v False))))"
  \<comment> \<open>three buys of 0.006, 0.003 and 0.001: the doubles sum to 0.010000000000000002\<close>

definition buy_then_sell :: "variant \<Rightarrow> VoidEngine" where
  "buy_then_sell v =
     processTrade v (lit 100) (lit 4) (Some True) 1700000001000
       (processTrade v (lit 100) (lit 10) (Some False) 1700000000000
          (snd (new_VoidEngine v False)))"
  \<comment> \<open>a buy of 10, then one second later a sell of 4\<close>

definition well_formed :: "level list \<Rightarrow> bool" where
  "well_formed us = (NotIterable \<notin> set us)"

fun last_update :: "num \<Rightarrow> level list \<Rightarrow> num option" where
  "last_update p [] = None"
| "last_update p (Level p' q # us) =
     (case last_update p us of Some q' \<Rightarrow> Some q' | None \<Rightarrow> if p' = p then Some q else None)"
| "last_update p (NotIterable # us) = last_update p us"
  \<comment> \<open>the quantity of the last entry of the delta for the price, if there is one\<close>

definition levels_ok :: "level list \<Rightarrow> bool" where
  "levels_ok us =
     list_all (\<lambda>u. case u of Level p q \<Rightarrow> finite_nonneg q | NotIterable \<Rightarrow> False) us"
  \<comment> \<open>every entry is a pair whose quantity is a finite double, not negative\<close>

definition book_ok :: "book \<Rightarrow> bool" where
  "book_ok m = list_all (\<lambda>l. finite_nonneg (snd l)) m"

definition imbalance :: "num \<Rightarrow> num \<Rightarrow> num" where
  "imbalance bv av =
     (if gt_n (add_n bv av) (lit 0) then div_n (sub_n bv av) (add_n bv av) else lit 0)"

definition two_sided :: VoidEngine where
  "two_sided =
     snd (processBook (Some [Level (lit 100) (lit 3), Level (lit 99) (lit 5)])
            (Some [Level (lit 101) (lit 1)]) (snd (new_VoidEngine VariantA False)))"

definition negative_ask :: VoidEngine where
  "negative_ask =
     snd (processBook (Some [Level (lit 100) (lit 3)])
            (Some [Level (lit 101) (neg_n (lit 1))]) (snd (new_VoidEngine VariantA False)))"
  \<comment> \<open>a bid of 3 at 100 and an ask of -1 at 101\<close>

definition infinite_bid :: VoidEngine where
  "infinite_bid =
     snd (processBook (Some [Level (lit 100) PInf])
            (Some [Level (lit 101) (lit 1)]) (snd (new_VoidEngine VariantA False)))"
  \<comment> \<open>a bid whose quantity string reads as \<^verbatim>\<open>Infinity\<close>, at 100, and an ask of 1 at 101\<close>

definition restored_bids :: VoidEngine where
  "restored_bids =
     snd (processBook
            (Some [Level (lit 100) (lit 3), Level (lit 99) (lit 5), Level (lit 100) (lit 0),
                   Level (lit 98) (lit 7), Level (lit 100) (lit 2)])
            (Some [Level (lit 101) (lit 1), Level (lit 101) (lit 0)])
            (snd (new_VoidEngine VariantA False)))"

definition population_variance :: "platform \<Rightarrow> num list \<Rightarrow> num" where
  "population_variance pl xs =
     (let n = Fin (real (length xs)); mean = div_n (sum_in_order xs) n
      in div_n (sum_in_order (map (\<lambda>x. math_pow pl (sub_n x mean) (lit 2)) xs)) n)"

definition three_way ::
  "num \<Rightarrow> num \<Rightarrow> string \<Rightarrow> string \<Rightarrow> string \<Rightarrow> num \<Rightarrow> string" where
  "three_way lo hi stagnant middle volatile vol =
     (if lt_n vol lo then stagnant else if lt_n vol hi then middle else volatile)"

definition classify :: "variant \<Rightarrow> num \<Rightarrow> string" where
  "classify v =
     (case v of
        VariantA \<Rightarrow> three_way (lit 0.10) (lit 0.35) ''STAGNATION'' ''EQUILIBRIUM'' ''VOLATILITY''
      | VariantB \<Rightarrow> three_way (lit 0.10) (lit 0.40) ''STAGNANT'' ''STABLE'' ''VOLATILE'')"

definition regime_of :: "platform \<Rightarrow> variant \<Rightarrow> num list \<Rightarrow> string" where
  "regime_of pl v hist =
     (if length hist \<le> 10 then ''CALCULATING''
      else classify v (math_sqrt pl (population_variance pl hist)))"

definition regimes :: "variant \<Rightarrow> string list" where
  "regimes v =
     (case v of VariantA \<Rightarrow> [''STAGNATION'', ''EQUILIBRIUM'', ''VOLATILITY'']
      | VariantB \<Rightarrow> [''STAGNANT'', ''STABLE'', ''VOLATILE''])"

definition regime_inv :: "platform \<Rightarrow> variant \<Rightarrow> heap \<times> VoidEngine \<Rightarrow> bool" where
  "regime_inv pl v w =
     (domain_state (state (snd w)) = regime_of pl v (imbalance_hist (snd w))
      \<and> length (imbalance_hist (snd w)) \<le> 120)"

definition swinging_hist :: "num list" where
  "swinging_hist =
     [Fin (1 / 4), Fin (- 1 / 4), Fin (1 / 4), Fin (- 1 / 4), Fin (1 / 4), Fin (- 1 / 4),
      Fin (1 / 4), Fin (- 1 / 4), Fin (1 / 4), Fin (- 1 / 4), Fin (1 / 4), Fin (- 1 / 4)]"
  \<comment> \<open>twelve samples of mean 0 and standard deviation 0.25\<close>

definition depth_tick :: "int \<times> message" where
  "depth_tick =
     (0, DepthMsg (Some \<lparr>data_b = Some [Level (lit 100) (lit 1)],
                          data_a = Some [Level (lit 101) (lit 1)]\<rparr>))"

definition first_tick :: "(heap \<times> VoidEngine) \<times> VoidState list" where
  "first_tick = run reference_platform VariantA [(0, OtherMsg)] (new_VoidEngine VariantA True)"

definition emptied_heap :: heap where
  "emptied_heap =
     fst (mutate (SetTitansRows []) (fst (fst first_tick), hd (snd first_tick)))"
  \<comment> \<open>the heap after the subscriber has emptied the rows of the snapshot it received\<close>

definition second_tick :: "(heap \<times> VoidEngine) \<times> VoidState list" where
  "second_tick =
     run reference_platform VariantA [(0, OtherMsg)] (emptied_heap, snd (fst first_tick))"









section \<open>Rounding\<close>

lemma exponent_from_ge: "e \<le> exponent_from n e a"
proof (induction n arbitrary: e)
  case 0
  then show ?case by simp
next
  case (Suc n)
  show ?case using Suc.IH[of "e + 1"] by simp
qed

lemma exponent_from_le: "exponent_from n e a \<le> e + int n"
proof (induction n arbitrary: e)
  case 0
  then show ?case by simp
next
  case (Suc n)
  show ?case using Suc.IH[of "e + 1"] by simp
qed

lemma exponent_from_lower: "e < exponent_from n e a \<Longrightarrow> 2 powi (exponent_from n e a) \<le> a"
proof (induction n arbitrary: e)
  case 0
  then show ?case by simp
next
  case (Suc n)
  show ?case
  proof (cases "2 powi (e + 1) \<le> a")
    case True
    then have eq: "exponent_from (Suc n) e a = exponent_from n (e + 1) a" by simp
    show ?thesis
    proof (cases "e + 1 < exponent_from n (e + 1) a")
      case True
      then show ?thesis using Suc.IH[of "e + 1"] eq by simp
    next
      case False
      then have "exponent_from n (e + 1) a = e + 1"
        using exponent_from_ge[of "e + 1" n a] by linarith
      then show ?thesis using eq \<open>2 powi (e + 1) \<le> a\<close> by simp
    qed
  next
    case False
    then show ?thesis using Suc.prems by simp
  qed
qed

lemma exponent_from_upper:
  "exponent_from n e a < e + int n \<Longrightarrow> a < 2 powi (exponent_from n e a + 1)"
proof (induction n arbitrary: e)
  case 0
  then show ?case by simp
next
  case (Suc n)
  show ?case
  proof (cases "2 powi (e + 1) \<le> a")
    case True
    then show ?thesis using Suc.IH[of "e + 1"] Suc.prems by simp
  next
    case False
    then show ?thesis by simp
  qed
qed

lemma exponent_from_mono: "a \<le> b \<Longrightarrow> exponent_from n e a \<le> exponent_from n e b"
proof (induction n arbitrary: e)
  case 0
  then show ?case by simp
next
  case (Suc n)
  show ?case
  proof (cases "2 powi (e + 1) \<le> a")
    case True
    then have "2 powi (e + 1) \<le> b" using Suc.prems by linarith
    then show ?thesis using True Suc.IH[OF Suc.prems, of "e + 1"] by simp
  next
    case False
    then show ?thesis using exponent_from_ge[of "e + 1" n b] by simp
  qed
qed

lemma two_powi_mono: "i \<le> j \<Longrightarrow> (2::real) powi i \<le> 2 powi j"
  by (rule power_int_increasing) simp_all

lemma exponent_from_eq:
  assumes "e0 \<le> e" and "e \<le> e0 + int n"
      and "e0 < e \<Longrightarrow> 2 powi e \<le> a" and "e < e0 + int n \<Longrightarrow> a < 2 powi (e + 1)"
  shows "exponent_from n e0 a = e"
proof -
  let ?r = "exponent_from n e0 a"
  have ge: "e0 \<le> ?r" by (rule exponent_from_ge)
  have le: "?r \<le> e0 + int n" by (rule exponent_from_le)
  have "\<not> ?r < e"
  proof
    assume lt: "?r < e"
    then have "a < 2 powi (?r + 1)" using exponent_from_upper[of n e0 a] assms(2) by linarith
    moreover have "2 powi (?r + 1) \<le> (2::real) powi e" using lt by (intro two_powi_mono) simp
    moreover have "2 powi e \<le> a" using assms(3) ge lt by linarith
    ultimately show False by linarith
  qed
  moreover have "\<not> e < ?r"
  proof
    assume lt: "e < ?r"
    then have "2 powi ?r \<le> a" using exponent_from_lower[of e0 n a] assms(1) by linarith
    moreover have "2 powi (e + 1) \<le> (2::real) powi ?r" using lt by (intro two_powi_mono) simp
    moreover have "a < 2 powi (e + 1)" using assms(4) le lt by linarith
    ultimately show False by linarith
  qed
  ultimately show ?thesis by linarith
qed

lemma binade_range: "- 1022 \<le> binade x" "binade x \<le> 1024"
  using exponent_from_ge[of "- 1022" 2046 "\<bar>x\<bar>"] exponent_from_le[of 2046 "- 1022" "\<bar>x\<bar>"]
  by (simp_all add: binade_def)

lemma binade_lower: "- 1022 < binade x \<Longrightarrow> 2 powi (binade x) \<le> \<bar>x\<bar>"
  unfolding binade_def by (rule exponent_from_lower)

lemma binade_upper: "binade x < 1024 \<Longrightarrow> \<bar>x\<bar> < 2 powi (binade x + 1)"
  unfolding binade_def using exponent_from_upper[of 2046 "- 1022" "\<bar>x\<bar>"] by simp

lemma binade_mono: "\<bar>x\<bar> \<le> \<bar>y\<bar> \<Longrightarrow> binade x \<le> binade y"
  unfolding binade_def by (rule exponent_from_mono)

lemma binade_minus [simp]: "binade (- x) = binade x"
  by (simp add: binade_def)

lemma binade_eq:
  assumes "- 1022 \<le> e" and "e \<le> 1023"
      and "- 1022 < e \<Longrightarrow> 2 powi e \<le> \<bar>x\<bar>" and "\<bar>x\<bar> < 2 powi (e + 1)"
  shows "binade x = e"
  unfolding binade_def using assms by (intro exponent_from_eq) simp_all

lemma ulp_pos [simp]: "0 < ulp x"
  by (simp add: ulp_def)

lemma ulp_nonneg [simp]: "0 \<le> ulp x"
  by (simp add: ulp_def)

lemma div_ulp_mono: "x \<le> y \<Longrightarrow> x / ulp z \<le> y / ulp z"
  by (rule divide_right_mono) simp_all

lemma ulp_neq0 [simp]: "ulp x \<noteq> 0"
  by (simp add: ulp_def)

lemma ulp_minus [simp]: "ulp (- x) = ulp x"
  by (simp add: ulp_def)

lemma round_half_even_of_int [simp]: "round_half_even (of_int k) = k"
  by (simp add: round_half_even_def)

lemma round_half_even_mono: "r \<le> s \<Longrightarrow> round_half_even r \<le> round_half_even s"
proof -
  assume rs: "r \<le> s"
  have fl: "\<lfloor>r\<rfloor> \<le> \<lfloor>s\<rfloor>" using rs by (rule floor_mono)
  have lo: "\<lfloor>s\<rfloor> \<le> round_half_even s" by (simp add: round_half_even_def Let_def)
  have hi: "round_half_even r \<le> \<lfloor>r\<rfloor> + 1" by (simp add: round_half_even_def Let_def)
  show ?thesis
  proof (cases "\<lfloor>r\<rfloor> = \<lfloor>s\<rfloor>")
    case True
    then show ?thesis using rs by (auto simp: round_half_even_def Let_def)
  next
    case False
    then show ?thesis using fl lo hi by linarith
  qed
qed

lemma round_half_even_0 [simp]: "round_half_even 0 = 0"
  by (simp add: round_half_even_def)

lemma round_half_even_1 [simp]: "round_half_even 1 = 1"
  by (simp add: round_half_even_def)

lemma round_half_even_numeral [simp]: "round_half_even (numeral n) = numeral n"
  by (simp add: round_half_even_def)

lemma round_half_even_nonneg: "0 \<le> r \<Longrightarrow> 0 \<le> round_half_even r"
  using round_half_even_mono[of 0 r] by simp

lemma nearest_0 [simp]: "nearest 0 = 0"
  by (simp add: nearest_def)

lemma nearest_minus: "nearest (- x) = - nearest x"
  by (simp add: nearest_def sgn_minus)

lemma nearest_pos: "0 < x \<Longrightarrow> nearest x = of_int (round_half_even (x / ulp x)) * ulp x"
  by (simp add: nearest_def)

lemma nearest_nonneg: "0 \<le> x \<Longrightarrow> 0 \<le> nearest x"
proof (cases "x = 0")
  case True
  then show ?thesis by simp
next
  case False
  assume "0 \<le> x"
  then have x: "0 < x" using False by simp
  have "0 \<le> round_half_even (x / ulp x)"
    by (rule round_half_even_nonneg) (use x in \<open>simp add: less_imp_le\<close>)
  then show ?thesis using x by (simp add: nearest_pos)
qed

lemma nearest_mono_pos:
  assumes x: "0 < x" and xy: "x \<le> y"
  shows "nearest x \<le> nearest y"
proof -
  have y: "0 < y" using x xy by linarith
  have b: "binade x \<le> binade y" using x xy by (intro binade_mono) simp
  show ?thesis
  proof (cases "binade x = binade y")
    case True
    then have u: "ulp x = ulp y" by (simp add: ulp_def)
    have "x / ulp y \<le> y / ulp y" using xy by (rule div_ulp_mono)
    then have "round_half_even (x / ulp y) \<le> round_half_even (y / ulp y)"
      by (rule round_half_even_mono)
    then show ?thesis using x y u by (simp add: nearest_pos)
  next
    case False
    then have lt: "binade x < binade y" using b by linarith
    have bx: "binade x < 1024" using lt binade_range(2)[of y] by linarith
    have by': "- 1022 < binade y" using lt binade_range(1)[of x] by linarith
    have "x < 2 powi (binade x + 1)" using binade_upper[OF bx] x by simp
    then have "x / ulp x \<le> 2 powi (binade x + 1) / ulp x"
      by (intro div_ulp_mono) simp
    also have "2 powi (binade x + 1) / ulp x = (2::real) ^ 53"
      by (simp add: ulp_def power_int_diff power_int_add)
    finally have "round_half_even (x / ulp x) \<le> round_half_even (of_int (2 ^ 53))"
      by (intro round_half_even_mono) simp
    then have "round_half_even (x / ulp x) \<le> 2 ^ 53" by (simp only: round_half_even_of_int)
    then have "real_of_int (round_half_even (x / ulp x)) \<le> 2 ^ 53"
      by (metis of_int_le_iff of_int_numeral of_int_power)
    then have "nearest x \<le> 2 ^ 53 * ulp x"
      using x by (simp add: nearest_pos)
    also have "2 ^ 53 * ulp x = 2 powi (binade x + 1)"
      by (simp add: ulp_def power_int_diff power_int_add)
    also have "\<dots> \<le> 2 powi (binade y)" using lt by (intro two_powi_mono) simp
    finally have up: "nearest x \<le> 2 powi (binade y)" .
    have "2 powi (binade y) \<le> y" using binade_lower[OF by'] y by simp
    then have "2 powi (binade y) / ulp y \<le> y / ulp y"
      by (rule div_ulp_mono)
    moreover have "2 powi (binade y) / ulp y = (2::real) ^ 52"
      by (simp add: ulp_def power_int_diff)
    ultimately have "round_half_even (of_int (2 ^ 52)) \<le> round_half_even (y / ulp y)"
      by (intro round_half_even_mono) simp
    then have "2 ^ 52 \<le> round_half_even (y / ulp y)" by (simp only: round_half_even_of_int)
    then have "2 ^ 52 \<le> real_of_int (round_half_even (y / ulp y))"
      by (metis of_int_le_iff of_int_numeral of_int_power)
    then have "2 ^ 52 * ulp y \<le> nearest y"
      using y by (simp add: nearest_pos)
    moreover have "2 ^ 52 * ulp y = 2 powi (binade y)"
      by (simp add: ulp_def power_int_diff)
    ultimately show ?thesis using up by linarith
  qed
qed

lemma nearest_mono: "x \<le> y \<Longrightarrow> nearest x \<le> nearest y"
proof -
  assume xy: "x \<le> y"
  consider "0 < x" | "x \<le> 0" "0 \<le> y" | "y < 0" by linarith
  then show ?thesis
  proof cases
    case 1
    then show ?thesis using xy by (rule nearest_mono_pos)
  next
    case 2
    have "nearest x \<le> 0" using nearest_nonneg[of "- x"] 2(1) by (simp add: nearest_minus)
    then show ?thesis using nearest_nonneg[OF 2(2)] by linarith
  next
    case 3
    have "nearest (- y) \<le> nearest (- x)"
      by (rule nearest_mono_pos) (use 3 xy in simp_all)
    then show ?thesis by (simp add: nearest_minus)
  qed
qed

lemma nearest_eval:
  assumes "0 < x" and "- 1022 \<le> e" and "e \<le> 1023"
      and "2 powi e \<le> x" and "x < 2 powi (e + 1)"
  shows "nearest x = of_int (round_half_even (x / 2 powi (e - 52))) * 2 powi (e - 52)"
proof -
  have "binade x = e" using assms by (intro binade_eq) simp_all
  then show ?thesis using assms(1) by (simp add: nearest_pos ulp_def)
qed

lemma nearest_multiple: "\<bar>x\<bar> / ulp x = of_int k \<Longrightarrow> nearest x = x"
proof -
  assume k: "\<bar>x\<bar> / ulp x = of_int k"
  then have "of_int (round_half_even (\<bar>x\<bar> / ulp x)) * ulp x = \<bar>x\<bar>"
    by (simp only: round_half_even_of_int) (simp add: k[symmetric])
  then show ?thesis by (simp add: nearest_def sgn_real_def)
qed

lemma binade_1: "binade 1 = 0"
  by (rule binade_eq) simp_all

lemma nearest_of_int:
  assumes "\<bar>k\<bar> < 2 ^ 53"
  shows "nearest (of_int k) = of_int k"
proof (cases "k = 0")
  case True
  then show ?thesis by simp
next
  case False
  let ?x = "real_of_int k"
  have "1 \<le> \<bar>k\<bar>" using False by simp
  then have one: "1 \<le> \<bar>?x\<bar>" by (metis of_int_abs of_int_1_le_iff)
  have b0: "0 \<le> binade ?x" using binade_mono[of 1 ?x] one by (simp add: binade_1)
  have b52: "binade ?x \<le> 52"
  proof (rule ccontr)
    assume "\<not> binade ?x \<le> 52"
    then have b: "53 \<le> binade ?x" by simp
    then have "2 powi (binade ?x) \<le> \<bar>?x\<bar>" by (intro binade_lower) simp
    moreover have "(2::real) powi 53 \<le> 2 powi (binade ?x)" using b by (rule two_powi_mono)
    ultimately have "(2::real) ^ 53 \<le> \<bar>?x\<bar>" by simp
    moreover have "\<bar>?x\<bar> < 2 ^ 53" using assms
      by (metis of_int_abs of_int_less_iff of_int_numeral of_int_power)
    ultimately show False by linarith
  qed
  define n where "n = nat (52 - binade ?x)"
  have u: "ulp ?x = 1 / 2 ^ n"
  proof -
    have "binade ?x - 52 = - int n" using b52 by (simp add: n_def)
    then show ?thesis by (simp add: ulp_def power_int_minus_divide)
  qed
  have "\<bar>?x\<bar> / ulp ?x = of_int (\<bar>k\<bar> * 2 ^ n)" by (simp add: u)
  then show ?thesis by (rule nearest_multiple)
qed

lemma rnd_double: "is_double x \<Longrightarrow> rnd x = Fin x"
  by (auto simp: is_double_def rnd_def)

lemma is_double_of_int: "\<bar>k\<bar> < 2 ^ 53 \<Longrightarrow> is_double (of_int k)"
proof -
  assume k: "\<bar>k\<bar> < 2 ^ 53"
  then have "\<bar>real_of_int k\<bar> < 2 ^ 53"
    by (metis of_int_abs of_int_less_iff of_int_numeral of_int_power)
  moreover have "(2::real) ^ 53 \<le> 2 ^ 1024" by (rule power_increasing) simp_all
  ultimately show ?thesis using k by (simp add: is_double_def nearest_of_int)
qed

lemma rnd_of_int: "\<bar>k\<bar> < 2 ^ 53 \<Longrightarrow> rnd (of_int k) = Fin (of_int k)"
  by (intro rnd_double is_double_of_int)


section \<open>Arithmetic on doubles\<close>

lemma nearest_le_top:
  assumes x: "0 < x" and b: "binade x < 1024"
  shows "nearest x \<le> 2 powi (binade x + 1)"
proof -
  have "x < 2 powi (binade x + 1)" using binade_upper[OF b] x by simp
  then have "x / ulp x \<le> 2 powi (binade x + 1) / ulp x"
    by (intro div_ulp_mono) simp
  also have "2 powi (binade x + 1) / ulp x = (2::real) ^ 53"
    by (simp add: ulp_def power_int_diff power_int_add)
  finally have "round_half_even (x / ulp x) \<le> round_half_even (of_int (2 ^ 53))"
    by (intro round_half_even_mono) simp
  then have "round_half_even (x / ulp x) \<le> 2 ^ 53" by (simp only: round_half_even_of_int)
  then have "real_of_int (round_half_even (x / ulp x)) \<le> 2 ^ 53"
    by (metis of_int_le_iff of_int_numeral of_int_power)
  then have "nearest x \<le> 2 ^ 53 * ulp x"
    using x by (simp add: nearest_pos)
  also have "2 ^ 53 * ulp x = 2 powi (binade x + 1)"
    by (simp add: ulp_def power_int_diff power_int_add)
  finally show ?thesis .
qed

lemma rnd_0 [simp]: "rnd 0 = Fin 0"
  by (simp add: rnd_def)

lemma rnd_1 [simp]: "rnd 1 = Fin 1"
  using rnd_of_int[of 1] by simp

lemma rnd_numeral [simp]:
  "(numeral n :: int) < 2 ^ 53 \<Longrightarrow> rnd (numeral n) = Fin (numeral n)"
  using rnd_of_int[of "numeral n"] by simp

lemma rnd_neg_numeral [simp]:
  "(numeral n :: int) < 2 ^ 53 \<Longrightarrow> rnd (- numeral n) = Fin (- numeral n)"
  using rnd_of_int[of "- numeral n"] by simp

lemma rnd_neg_1 [simp]: "rnd (- 1) = Fin (- 1)"
  using rnd_of_int[of "- 1"] by simp

lemma lit_0 [simp]: "lit 0 = Fin 0"
  by (simp add: lit_def)

lemma lit_1 [simp]: "lit 1 = Fin 1"
  by (simp add: lit_def)

lemma sub_n_Fin [simp]: "sub_n (Fin x) (Fin y) = rnd (x - y)"
  by (simp add: sub_n_def)

lemma lit_numeral [simp]:
  "(numeral n :: int) < 2 ^ 53 \<Longrightarrow> lit (numeral n) = Fin (numeral n)"
  by (simp add: lit_def)

lemma rnd_eval:
  assumes "0 < x" and "- 1022 \<le> e" and "e \<le> 1022"
      and "2 powi e \<le> x" and "x < 2 powi (e + 1)"
      and "of_int (round_half_even (x / 2 powi (e - 52))) * 2 powi (e - 52) = y"
  shows "rnd x = Fin y"
proof -
  have b: "binade x = e" using assms by (intro binade_eq) simp_all
  have n: "nearest x = y" using nearest_eval[of x e] assms by simp
  have "nearest x \<le> 2 powi (e + 1)" using nearest_le_top[of x] assms(1,3) b by simp
  also have "\<dots> \<le> (2::real) powi 1023" using assms(3) by (intro two_powi_mono) simp
  also have "\<dots> < (2::real) ^ 1024" by simp
  finally have hi: "nearest x < 2 ^ 1024" .
  have "0 \<le> nearest x" using assms(1) by (intro nearest_nonneg) simp
  then show ?thesis using hi n by (simp add: rnd_def)
qed

lemma rnd_half [simp]: "rnd (1 / 2) = Fin (1 / 2)"
  by (rule rnd_eval[of _ "- 1"]) simp_all

lemma lit_half [simp]: "lit (1 / 2) = Fin (1 / 2)"
  by (simp add: lit_def)

lemma rnd_quarter [simp]: "rnd (1 / 4) = Fin (1 / 4)"
  by (rule rnd_eval[of _ "- 2"]) simp_all

lemma lit_03: "lit (3 / 10) = Fin (5404319552844595 / 2 ^ 54)"
  unfolding lit_def by (rule rnd_eval[of _ "- 2"]) (simp_all add: round_half_even_def)

lemma lit_01: "lit (1 / 10) = Fin (7205759403792794 / 2 ^ 56)"
  unfolding lit_def by (rule rnd_eval[of _ "- 4"]) (simp_all add: round_half_even_def)

lemma lit_035: "lit (7 / 20) = Fin (6305039478318694 / 2 ^ 54)"
  unfolding lit_def by (rule rnd_eval[of _ "- 2"]) (simp_all add: round_half_even_def)

lemma lit_04: "lit (2 / 5) = Fin (7205759403792794 / 2 ^ 54)"
  unfolding lit_def by (rule rnd_eval[of _ "- 2"]) (simp_all add: round_half_even_def)

lemma lit_001: "lit (1 / 100) = Fin (5764607523034235 / 2 ^ 59)"
  unfolding lit_def by (rule rnd_eval[of _ "- 7"]) (simp_all add: round_half_even_def)

lemma lit_0005: "lit (1 / 200) = Fin (5764607523034235 / 2 ^ 60)"
  unfolding lit_def by (rule rnd_eval[of _ "- 8"]) (simp_all add: round_half_even_def)

lemma rnd_mono_unit:
  assumes "- 1 \<le> x" and "x \<le> 1"
  shows "in_unit (rnd x)"
proof -
  have "nearest (- 1) \<le> nearest x" using assms(1) by (rule nearest_mono)
  moreover have "nearest x \<le> nearest 1" using assms(2) by (rule nearest_mono)
  moreover have "nearest 1 = 1" using nearest_of_int[of 1] by simp
  moreover have "nearest (- 1) = - 1" using nearest_of_int[of "- 1"] by simp
  ultimately show ?thesis by (simp add: rnd_def in_unit_def)
qed

lemma imbalance_in_unit:
  assumes a: "finite_nonneg a" and b: "finite_nonneg b"
  shows "in_unit (imbalance a b)"
proof -
  obtain x where ax: "a = Fin x" "0 \<le> x" "is_double x"
    using a by (cases a) (simp_all add: finite_nonneg_def)
  obtain y where by': "b = Fin y" "0 \<le> y" "is_double y"
    using b by (cases b) (simp_all add: finite_nonneg_def)
  define M where "M = max x y"
  have M: "nearest M = M" "M < 2 ^ 1024" "0 \<le> M"
    using ax by' by (auto simp: M_def is_double_def max_def)
  have t_hi: "nearest (x - y) \<le> M"
    using nearest_mono[of "x - y" M] M(1) ax(2) by'(2) by (simp add: M_def)
  have t_lo: "- M \<le> nearest (x - y)"
    using nearest_mono[of "- M" "x - y"] M(1) ax(2) by'(2) by (simp add: M_def nearest_minus)
  have sub: "sub_n a b = Fin (nearest (x - y))"
    using t_hi t_lo M(2) by (simp add: ax(1) by'(1) sub_n_def rnd_def)
  have s_hi: "nearest (x - y) \<le> nearest (x + y)"
    by (rule nearest_mono) (use by'(2) in simp)
  have s_lo: "- nearest (x + y) \<le> nearest (x - y)"
  proof -
    have "nearest (- (x + y)) \<le> nearest (x - y)"
      by (rule nearest_mono) (use ax(2) in simp)
    then show ?thesis by (simp only: nearest_minus)
  qed
  have s0: "0 \<le> nearest (x + y)" by (rule nearest_nonneg) (use ax(2) by'(2) in simp)
  show ?thesis
  proof (cases "2 ^ 1024 \<le> nearest (x + y)")
    case True
    then have "add_n a b = PInf" by (simp add: ax(1) by'(1) rnd_def)
    then show ?thesis using sub by (simp add: imbalance_def gt_n_def in_unit_def)
  next
    case False
    then have add: "add_n a b = Fin (nearest (x + y))"
      using s0 by (simp add: ax(1) by'(1) rnd_def)
    show ?thesis
    proof (cases "0 < nearest (x + y)")
      case True
      have "in_unit (rnd (nearest (x - y) / nearest (x + y)))"
        by (rule rnd_mono_unit) (use True s_hi s_lo in \<open>simp_all add: field_simps\<close>)
      then show ?thesis using True add sub by (simp add: imbalance_def gt_n_def)
    next
      case False
      then show ?thesis using add by (simp add: imbalance_def gt_n_def in_unit_def)
    qed
  qed
qed

section \<open>Running the handler\<close>

lemma run_invariant:
  assumes step: "\<And>w d m. P w \<Longrightarrow> P (fst (onmessage pl v d m w))"
  shows "P w \<Longrightarrow> P (fst (run pl v evs w))"
proof (induction evs arbitrary: w)
  case Nil
  then show ?case by simp
next
  case (Cons ev evs)
  obtain d m where ev: "ev = (d, m)" by (cases ev)
  have "P (fst (onmessage pl v d m w))" using Cons.prems step by blast
  then have "P (fst (run pl v evs (fst (onmessage pl v d m w))))" by (rule Cons.IH)
  then show ?case by (simp add: ev Let_def)
qed

lemma run_append:
  "fst (run pl v (evs1 @ evs2) w) = fst (run pl v evs2 (fst (run pl v evs1 w)))"
proof (induction evs1 arbitrary: w)
  case Nil
  then show ?case by simp
next
  case (Cons ev evs1)
  obtain d m where ev: "ev = (d, m)" by (cases ev)
  show ?case using Cons.IH[of "fst (onmessage pl v d m w)"] by (simp add: ev Let_def)
qed

lemma processBook_raise:
  "processBook bids asks e = (Some err, e1) \<Longrightarrow>
     state e1 = state e \<and> trades e1 = trades e
     \<and> imbalance_hist e1 = imbalance_hist e \<and> onUpdate e1 = onUpdate e
     \<and> (bids = None \<longrightarrow> e1 = e)"
  by (auto simp: processBook_def Let_def split: option.splits if_splits)

section \<open>Verdict: the star count (variant A)\<close>

lemma calculateMonolith_A_kinetic:
  "void_kinetic (state (snd (calculateMonolith_A w))) = void_kinetic (state (snd w))"
  by (simp add: calculateMonolith_A_def Let_def)

lemma calculateMonolith_A_verdict: "verdict_inv_A (calculateMonolith_A w)"
  by (auto simp add: verdict_inv_A_def calculateMonolith_A_def Let_def star_count_signal_def)

lemma publish_A_verdict: "verdict_inv_A (fst (publish pl VariantA w))"
  using calculateMonolith_A_verdict by (simp add: publish_def calculateMonolith_def Let_def)

lemma onmessage_A_verdict:
  assumes inv: "verdict_inv_A w"
  shows "verdict_inv_A (fst (onmessage pl VariantA d m w))"
proof (cases m)
  case (DepthMsg x)
  show ?thesis
  proof (cases x)
    case None
    then show ?thesis using inv DepthMsg by simp
  next
    case (Some dd)
    obtain r e1 where pb: "processBook (data_b dd) (data_a dd) (snd w) = (r, e1)"
      by (cases "processBook (data_b dd) (data_a dd) (snd w)")
    show ?thesis
    proof (cases r)
      case None
      then show ?thesis using DepthMsg Some pb by (simp add: publish_A_verdict)
    next
      case (Some err)
      then have "state e1 = state (snd w)"
        using processBook_raise[of "data_b dd" "data_a dd" "snd w" err e1] pb by simp
      then show ?thesis using DepthMsg \<open>x = Some dd\<close> pb Some inv
        by (simp add: verdict_inv_A_def)
    qed
  qed
next
  case (TradeMsg x)
  then show ?thesis using inv by (cases x) (simp_all add: publish_A_verdict)
qed (use inv in \<open>simp_all add: publish_A_verdict\<close>)

text \<open>
  Claim C2. Under the star-count policy the signal is determined by the score and the
  sign of kinetic: a score of 4 or more gives EXECUTE LONG when kinetic is positive and
  EXECUTE SHORT otherwise, a score of 3 gives PREPARE, any other score STANDBY. This is
  what \<open>calculateMonolith\<close> of variant A leaves in the state whatever the state before,
  and it holds in every state reached from a new engine by any sequence of deliveries.
  With kinetic 60, pressure 0, elasticity 3 and the volatile regime the score is 3 and
  the signal PREPARE.
\<close>

theorem star_count_policy:
  "signal (state (snd (calculateMonolith_A w))) =
     star_count_signal (monolith_stars (state (snd (calculateMonolith_A w))))
       (void_kinetic (state (snd w)))
   \<and> signal (state (snd (fst (run pl VariantA evs (new_VoidEngine VariantA sub))))) =
       star_count_signal
         (monolith_stars (state (snd (fst (run pl VariantA evs (new_VoidEngine VariantA sub))))))
         (void_kinetic (state (snd (fst (run pl VariantA evs (new_VoidEngine VariantA sub))))))
   \<and> monolith_stars (state (snd (calculateMonolith_A
         (h, e\<lparr>state := (state e)\<lparr>void_kinetic := lit 60, void_pressure := lit 0.0,
                  void_elasticity := lit 3.0, domain_state := ''VOLATILITY''\<rparr>\<rparr>)))) = 3
   \<and> signal (state (snd (calculateMonolith_A
         (h, e\<lparr>state := (state e)\<lparr>void_kinetic := lit 60, void_pressure := lit 0.0,
                  void_elasticity := lit 3.0, domain_state := ''VOLATILITY''\<rparr>\<rparr>)))) = ''PREPARE''"
proof (intro conjI)
  show "signal (state (snd (calculateMonolith_A w))) =
     star_count_signal (monolith_stars (state (snd (calculateMonolith_A w))))
       (void_kinetic (state (snd w)))"
    using calculateMonolith_A_verdict[of w]
    by (simp add: verdict_inv_A_def calculateMonolith_A_kinetic)
  have "verdict_inv_A (new_VoidEngine VariantA sub)"
    by (simp add: verdict_inv_A_def new_VoidEngine_def initial_state_def star_count_signal_def)
  then have "verdict_inv_A (fst (run pl VariantA evs (new_VoidEngine VariantA sub)))"
    using run_invariant[where P = verdict_inv_A and v = VariantA and pl = pl,
        OF onmessage_A_verdict]
    by blast
  then show "signal (state (snd (fst (run pl VariantA evs (new_VoidEngine VariantA sub))))) =
     star_count_signal
       (monolith_stars (state (snd (fst (run pl VariantA evs (new_VoidEngine VariantA sub))))))
       (void_kinetic (state (snd (fst (run pl VariantA evs (new_VoidEngine VariantA sub))))))"
    by (simp add: verdict_inv_A_def)
  show "monolith_stars (state (snd (calculateMonolith_A
         (h, e\<lparr>state := (state e)\<lparr>void_kinetic := lit 60, void_pressure := lit 0.0,
                  void_elasticity := lit 3.0, domain_state := ''VOLATILITY''\<rparr>\<rparr>)))) = 3"
    by (simp add: calculateMonolith_A_def Let_def gt_n_def lit_03)
  show "signal (state (snd (calculateMonolith_A
         (h, e\<lparr>state := (state e)\<lparr>void_kinetic := lit 60, void_pressure := lit 0.0,
                  void_elasticity := lit 3.0, domain_state := ''VOLATILITY''\<rparr>\<rparr>)))) = ''PREPARE''"
    by (simp add: calculateMonolith_A_def Let_def gt_n_def lit_03)
qed

theorem star_count_policy_witness:
  "signal (state (snd (calculateMonolith_A
      ([], (snd (new_VoidEngine VariantA True))
             \<lparr>state := initial_state\<lparr>void_kinetic := lit 60, void_pressure := lit 0.5,
                  void_elasticity := lit 3.0, domain_state := ''VOLATILITY''\<rparr>\<rparr>)))) =
     star_count_signal 5 (lit 60)
   \<and> star_count_signal 5 (lit 60) = ''EXECUTE LONG''"
proof -
  have "monolith_stars (state (snd (calculateMonolith_A
      ([], (snd (new_VoidEngine VariantA True))
             \<lparr>state := initial_state\<lparr>void_kinetic := lit 60, void_pressure := lit 0.5,
                  void_elasticity := lit 3.0, domain_state := ''VOLATILITY''\<rparr>\<rparr>)))) = 5"
    by (simp add: calculateMonolith_A_def Let_def gt_n_def lit_03)
  then show ?thesis
    using star_count_policy[where w = "([], (snd (new_VoidEngine VariantA True))
             \<lparr>state := initial_state\<lparr>void_kinetic := lit 60, void_pressure := lit 0.5,
                  void_elasticity := lit 3.0, domain_state := ''VOLATILITY''\<rparr>\<rparr>)"]
    by (simp add: star_count_signal_def gt_n_def)
qed

section \<open>Verdict: trap and break (variant B)\<close>

text \<open>
  Claim C3. Under the trap/break policy the signal is the first matching guard of the
  sequence: kinetic above 50 with elasticity below 0.5 gives SHORT (TRAP), kinetic above
  50 with elasticity above 2 gives LONG (BREAK), kinetic below -50 with elasticity above
  -0.5 gives LONG (TRAP), kinetic below -50 with elasticity below -2 gives SHORT (BREAK),
  and OBSERVE otherwise, for every kinetic and elasticity held by the state. Kinetic 60
  with elasticity 0.3 gives SHORT (TRAP).
\<close>

theorem trap_break_policy:
  "signal (state (snd (calculateMonolith_B w))) =
     trap_break_signal (void_kinetic (state (snd w))) (void_elasticity (state (snd w)))
   \<and> signal (state (snd (calculateMonolith_B
        (h, e\<lparr>state := (state e)\<lparr>void_kinetic := lit 60, void_elasticity := lit 0.3\<rparr>\<rparr>)))) =
       ''SHORT (TRAP)''"
  by (simp add: calculateMonolith_B_def Let_def trap_break_signal_def gt_n_def lit_03)

theorem trap_break_policy_witness:
  "signal (state (snd (calculateMonolith_B
      ([], (snd (new_VoidEngine VariantB True))
             \<lparr>state := initial_state\<lparr>void_kinetic := neg_n (lit 60),
                                      void_elasticity := neg_n (lit 3)\<rparr>\<rparr>)))) =
     ''SHORT (BREAK)''"
  using trap_break_policy[where w = "([], (snd (new_VoidEngine VariantB True))
             \<lparr>state := initial_state\<lparr>void_kinetic := neg_n (lit 60),
                                      void_elasticity := neg_n (lit 3)\<rparr>\<rparr>)"]
  by (simp add: trap_break_signal_def gt_n_def)

section \<open>Rolling trade window: net flow and elasticity\<close>

lemma sum_q_in_order: "sum_q ts = sum_in_order (map trade_q ts)"
  by (simp add: sum_q_def sum_in_order_def fold_map comp_def)

lemma length_slice_last: "length (slice_last n xs) = min n (length xs)"
  by (simp add: slice_last_def)

lemma trades_processTrade:
  "trades (processTrade v p q m d e) =
     buffered (trades e)
       \<lparr>trade_p = p, trade_q = q, trade_b = \<not> truthy m, trade_t = timestamp d\<rparr>"
  by (cases v)
     (simp_all add: processTrade_def processTrade_A_def processTrade_B_def Let_def
        buffered_def timestamp_def)

lemma kinetic_processTrade:
  "void_kinetic (state (processTrade v p q m d e)) =
     net_flow d (trades (processTrade v p q m d e))"
  by (cases v)
     (simp_all add: processTrade_def processTrade_A_def processTrade_B_def Let_def
        net_flow_def in_window_def timestamp_def sum_q_in_order conj_commute)

lemma elasticity_A:
  "void_elasticity (state (processTrade_A p q m d e)) =
     (let micro = slice_last 20 (trades (processTrade_A p q m d e))
      in if length (trades (processTrade_A p q m d e)) > 1
            \<and> gt_n (sum_in_order (map trade_q micro)) (lit 0.01)
         then micro_burst micro
         else void_elasticity (state e))"
  by (simp add: processTrade_A_def Let_def sum_q_in_order length_slice_last micro_burst_def)

lemma elasticity_B:
  "void_elasticity (state (processTrade_B p q m d e)) =
     (let micro = slice_last 15 (trades (processTrade_B p q m d e))
      in if length (trades (processTrade_B p q m d e)) > 1
         then (if gt_n (sum_in_order (map trade_q micro)) (lit 0.01)
               then micro_burst micro else lit 0)
         else void_elasticity (state e))"
  by (simp add: processTrade_B_def Let_def sum_q_in_order length_slice_last micro_burst_def)

lemma timestamp_seconds: "\<bar>s\<bar> < 2 ^ 53 \<Longrightarrow> timestamp (1000 * s) = Fin (of_int s)"
  using rnd_of_int[of s] by (simp add: timestamp_def)

lemma three_trades_kinetic:
  assumes "0 \<le> t0" and "t0 < 2 ^ 50"
  shows "void_kinetic (state (
        processTrade v p3 (lit 1) (Some False) (1000 * (t0 + 4))
          (processTrade v p2 (lit 4) (Some True) (1000 * (t0 + 1))
            (processTrade v p1 (lit 10) (Some False) (1000 * t0)
               (snd (new_VoidEngine v sub)))))) = lit 1"
proof -
  have T0: "timestamp (1000 * t0) = Fin (real_of_int t0)"
    using timestamp_seconds[of t0] assms by simp
  have T1: "timestamp (1000 * t0 + 1000) = Fin (real_of_int t0 + 1)"
    using timestamp_seconds[of "t0 + 1"] assms by simp
  have T4: "timestamp (1000 * t0 + 4000) = Fin (real_of_int t0 + 4)"
    using timestamp_seconds[of "t0 + 4"] assms by simp
  have W: "rnd (1 + real_of_int t0) = Fin (1 + real_of_int t0)"
    using rnd_of_int[of "t0 + 1"] assms by (simp add: add.commute)
  show ?thesis
    unfolding kinetic_processTrade
    by (simp add: trades_processTrade buffered_def new_VoidEngine_def net_flow_def
          in_window_def T0 T1 T4 W gt_n_def truthy_def sum_in_order_def)
qed

lemma buy_then_sell_kinetic: "void_kinetic (state (buy_then_sell v)) = lit 6"
proof -
  have T0: "timestamp 1700000000000 = Fin 1700000000"
    using timestamp_seconds[of 1700000000] by simp
  have T1: "timestamp 1700000001000 = Fin 1700000001"
    using timestamp_seconds[of 1700000001] by simp
  show ?thesis
    unfolding buy_then_sell_def kinetic_processTrade
    by (simp add: trades_processTrade buffered_def new_VoidEngine_def net_flow_def
          in_window_def T0 T1 gt_n_def truthy_def sum_in_order_def)
qed

text \<open>
  Claim C4. After every call of \<open>processTrade\<close>, in both variants, the call has
  appended to the buffer the trade with its price, its quantity, the event's timestamp
  and the buyer-initiated side exactly when the maker flag is not set, and kinetic is
  the sum of the quantities of the buyer-initiated trades minus the sum of the
  quantities of the seller-initiated trades, over the buffered trades whose timestamp is
  strictly greater than the event's timestamp minus 3 seconds; the sums are the code's,
  doubles added up in arrival order. A buy of 10 at \<open>t0\<close>, a sell of 4 at \<open>t0 + 1\<close>
  and a buy of 1 at \<open>t0 + 4\<close> leave kinetic at 1; a buy of 10 and, one second later,
  a sell of 4 leave it at 6.
\<close>

theorem kinetic_net_flow:
  "trades (processTrade v p q m d e) =
     buffered (trades e)
       \<lparr>trade_p = p, trade_q = q, trade_b = \<not> truthy m, trade_t = timestamp d\<rparr>
   \<and> void_kinetic (state (processTrade v p q m d e)) =
       net_flow d (trades (processTrade v p q m d e))
   \<and> (0 \<le> t0 \<and> t0 < 2 ^ 50 \<longrightarrow>
        void_kinetic (state (
          processTrade v p3 (lit 1) (Some False) (1000 * (t0 + 4))
            (processTrade v p2 (lit 4) (Some True) (1000 * (t0 + 1))
              (processTrade v p1 (lit 10) (Some False) (1000 * t0)
                 (snd (new_VoidEngine v sub)))))) = lit 1)
   \<and> void_kinetic (state (buy_then_sell v)) = lit 6"
  using trades_processTrade[of v p q m d e] kinetic_processTrade[of v p q m d e]
    three_trades_kinetic[of t0 v p3 p2 p1 sub] buy_then_sell_kinetic[of v]
  by blast

theorem kinetic_net_flow_witness:
  "(0::int) \<le> 1700000000 \<and> (1700000000::int) < 2 ^ 50
   \<and> void_kinetic (state (
        processTrade VariantA (lit 101) (lit 1) (Some False) (1000 * (1700000000 + 4))
          (processTrade VariantA (lit 100) (lit 4) (Some True) (1000 * (1700000000 + 1))
            (processTrade VariantA (lit 100) (lit 10) (Some False) (1000 * 1700000000)
               (snd (new_VoidEngine VariantA True)))))) = lit 1
   \<and> void_kinetic (state (buy_then_sell VariantA)) = lit 6"
proof -
  have h: "(0::int) \<le> 1700000000 \<and> (1700000000::int) < 2 ^ 50" by simp
  note k = kinetic_net_flow[where v = VariantA and ?t0.0 = 1700000000 and ?p3.0 = "lit 101"
        and ?p2.0 = "lit 100" and ?p1.0 = "lit 100" and sub = True and p = NaN and q = NaN
        and m = None and d = 0 and e = "snd (new_VoidEngine VariantA True)"]
  from k h have "void_kinetic (state (
        processTrade VariantA (lit 101) (lit 1) (Some False) (1000 * (1700000000 + 4))
          (processTrade VariantA (lit 100) (lit 4) (Some True) (1000 * (1700000000 + 1))
            (processTrade VariantA (lit 100) (lit 10) (Some False) (1000 * 1700000000)
               (snd (new_VoidEngine VariantA True)))))) = lit 1"
    by blast
  moreover from k have "void_kinetic (state (buy_then_sell VariantA)) = lit 6" by blast
  ultimately show ?thesis using h by blast
qed

text \<open>
  Claim C5, as amended. After a call of \<open>processTrade\<close> that leaves at least two trades
  buffered, with the micro window the last 20 trades in variant A and the last 15 in
  variant B: when the summed quantity of the window, doubles added up in arrival order,
  is strictly greater than the double 0.01, elasticity is the last price minus the first
  price of the window, divided by that sum, times 10000, in double arithmetic;
  otherwise, the sum being 0.01 or less or not a number, elasticity keeps its previous
  value in variant A and is zero in variant B.
\<close>

theorem elasticity_micro_burst:
  assumes "1 < length (trades (processTrade v p q m d e))"
  shows "void_elasticity (state (processTrade v p q m d e)) =
           (let micro = slice_last (micro_window v) (trades (processTrade v p q m d e))
            in if gt_n (sum_in_order (map trade_q micro)) (lit 0.01) then micro_burst micro
               else on_thin_volume v (void_elasticity (state e)))
         \<and> 15 \<le> micro_window v \<and> micro_window v \<le> 20"
proof (cases v)
  case VariantA
  then show ?thesis
    using assms elasticity_A[of p q m d e]
    by (simp add: processTrade_def micro_window_def on_thin_volume_def Let_def)
next
  case VariantB
  then show ?thesis
    using assms elasticity_B[of p q m d e]
    by (simp add: processTrade_def micro_window_def on_thin_volume_def Let_def)
qed

lemma two_trades_trades:
  "trades (two_trades v) =
     [\<lparr>trade_p = Fin 100, trade_q = Fin 1, trade_b = True, trade_t = Fin 0\<rparr>,
      \<lparr>trade_p = Fin 101, trade_q = Fin 1, trade_b = True, trade_t = Fin 0\<rparr>]"
  by (simp add: two_trades_def trades_processTrade buffered_def new_VoidEngine_def
        truthy_def timestamp_def)

lemma two_trades_elasticity: "void_elasticity (state (two_trades VariantA)) = Fin 5000"
proof -
  have "void_elasticity (state (two_trades VariantA)) =
          (let micro = slice_last 20 (trades (two_trades VariantA))
           in if length (trades (two_trades VariantA)) > 1
                 \<and> gt_n (sum_in_order (map trade_q micro)) (lit 0.01)
              then micro_burst micro
              else void_elasticity (state (processTrade_A (lit 100) (lit 1) (Some False) 0
                     (snd (new_VoidEngine VariantA False)))))"
    using elasticity_A[of "lit 101" "lit 1" "Some False" 0
        "processTrade_A (lit 100) (lit 1) (Some False) 0 (snd (new_VoidEngine VariantA False))"]
    by (simp add: two_trades_def processTrade_def)
  then show ?thesis
    by (simp add: two_trades_trades slice_last_def sum_in_order_def
          micro_burst_def gt_n_def lit_001)
qed

lemma lit_0006: "lit (3 / 500) = Fin (6917529027641082 / 2 ^ 60)"
  unfolding lit_def by (rule rnd_eval[of _ "- 8"]) (simp_all add: round_half_even_def)

lemma lit_0003: "lit (3 / 1000) = Fin (6917529027641082 / 2 ^ 61)"
  unfolding lit_def by (rule rnd_eval[of _ "- 9"]) (simp_all add: round_half_even_def)

lemma lit_0001: "lit (1 / 1000) = Fin (4611686018427388 / 2 ^ 62)"
  unfolding lit_def by (rule rnd_eval[of _ "- 10"]) (simp_all add: round_half_even_def)

lemma rnd_0006: "rnd (6917529027641082 / 2 ^ 60) = Fin (6917529027641082 / 2 ^ 60)"
  by (rule rnd_eval[of _ "- 8"]) (simp_all add: round_half_even_def)

lemma rnd_0009:
  "rnd (6917529027641082 / 2 ^ 60 + 6917529027641082 / 2 ^ 61)
     = Fin (5188146770730812 / 2 ^ 59)"
  by (rule rnd_eval[of _ "- 7"]) (simp_all add: round_half_even_def)

lemma rnd_0010:
  "rnd (5188146770730812 / 2 ^ 59 + 4611686018427388 / 2 ^ 62)
     = Fin (5764607523034236 / 2 ^ 59)"
  by (rule rnd_eval[of _ "- 7"]) (simp_all add: round_half_even_def)

lemma rnd_200: "rnd (2 / (5764607523034236 / 2 ^ 59)) = Fin (7036874417766399 / 2 ^ 45)"
  by (rule rnd_eval[of _ 7]) (simp_all add: round_half_even_def)

lemma rnd_2000000:
  "rnd (7036874417766399 / 2 ^ 45 * 10000) = Fin (8589934591999999 / 2 ^ 32)"
  by (rule rnd_eval[of _ 20]) (simp_all add: round_half_even_def)

lemma thin_trades_trades:
  "trades (thin_trades v) =
     [\<lparr>trade_p = Fin 100, trade_q = lit (3 / 500), trade_b = True, trade_t = Fin 0\<rparr>,
      \<lparr>trade_p = Fin 101, trade_q = lit (3 / 1000), trade_b = True, trade_t = Fin 0\<rparr>,
      \<lparr>trade_p = Fin 102, trade_q = lit (1 / 1000), trade_b = True, trade_t = Fin 0\<rparr>]"
  by (simp add: thin_trades_def trades_processTrade buffered_def new_VoidEngine_def
        truthy_def timestamp_def)

lemma thin_trades_volume:
  "sum_in_order (map trade_q (slice_last (micro_window v) (trades (thin_trades v))))
     = Fin (5764607523034236 / 2 ^ 59)"
  using rnd_0006 rnd_0009 rnd_0010
  by (cases v) (simp_all add: thin_trades_trades micro_window_def slice_last_def
        sum_in_order_def lit_0006 lit_0003 lit_0001)

theorem elasticity_micro_burst_witness:
  "1 < length (trades (thin_trades VariantB))
   \<and> sum_in_order (map trade_q (slice_last (micro_window VariantB)
                                  (trades (thin_trades VariantB))))
       = Fin (5764607523034236 / 2 ^ 59)
   \<and> lit 0.01 = Fin (5764607523034235 / 2 ^ 59)
   \<and> void_elasticity (state (thin_trades VariantB)) = Fin (8589934591999999 / 2 ^ 32)"
proof -
  have len: "1 < length (trades (processTrade VariantB (lit 102) (lit 0.001) (Some False) 0
       (processTrade VariantB (lit 101) (lit 0.003) (Some False) 0
          (processTrade VariantB (lit 100) (lit 0.006) (Some False) 0
             (snd (new_VoidEngine VariantB False))))))"
    using thin_trades_trades[of VariantB] by (simp add: thin_trades_def)
  have "void_elasticity (state (thin_trades VariantB)) =
          (let micro = slice_last (micro_window VariantB) (trades (thin_trades VariantB))
            in if gt_n (sum_in_order (map trade_q micro)) (lit 0.01) then micro_burst micro
               else on_thin_volume VariantB
                      (void_elasticity (state (processTrade VariantB (lit 101) (lit 0.003)
                         (Some False) 0 (processTrade VariantB (lit 100) (lit 0.006)
                            (Some False) 0 (snd (new_VoidEngine VariantB False)))))))"
    using elasticity_micro_burst[OF len] unfolding thin_trades_def by blast
  then have "void_elasticity (state (thin_trades VariantB)) =
               micro_burst (slice_last (micro_window VariantB) (trades (thin_trades VariantB)))"
    by (simp add: thin_trades_volume gt_n_def lit_001 Let_def)
  also have "\<dots> = Fin (8589934591999999 / 2 ^ 32)"
    unfolding micro_burst_def thin_trades_volume
    using rnd_200 rnd_2000000
    by (simp add: thin_trades_trades micro_window_def slice_last_def)
  finally have el: "void_elasticity (state (thin_trades VariantB))
                      = Fin (8589934591999999 / 2 ^ 32)" .
  show ?thesis
    using el thin_trades_volume[of VariantB] thin_trades_trades[of VariantB]
    by (simp add: lit_001)
qed

lemma rnd_0005: "rnd (5764607523034235 / 2 ^ 60) = Fin (5764607523034235 / 2 ^ 60)"
  by (rule rnd_eval[of _ "- 8"]) (simp_all add: round_half_even_def)

lemma rnd_001: "rnd (5764607523034235 / 2 ^ 59) = Fin (5764607523034235 / 2 ^ 59)"
  by (rule rnd_eval[of _ "- 7"]) (simp_all add: round_half_even_def)

lemma rnd_100: "rnd (2 ^ 59 / 5764607523034235) = Fin 100"
  by (rule rnd_eval[of _ 6]) (simp_all add: round_half_even_def)

lemma boundary_trades:
  "trades (boundary_engine v) =
     [\<lparr>trade_p = Fin 100, trade_q = lit (1 / 200), trade_b = True, trade_t = Fin 0\<rparr>,
      \<lparr>trade_p = Fin 101, trade_q = lit (1 / 200), trade_b = True, trade_t = Fin 0\<rparr>]"
  by (simp add: boundary_engine_def one_trade_def trades_processTrade buffered_def
        new_VoidEngine_def truthy_def timestamp_def)

lemma boundary_volume:
  "sum_in_order (map trade_q (slice_last (micro_window v) (trades (boundary_engine v))))
     = lit 0.01"
  using rnd_0005 rnd_001
  by (cases v) (simp_all add: boundary_trades micro_window_def slice_last_def
        sum_in_order_def lit_0005 lit_001)

text \<open>
  The claim as first stated, with "not below the floor" for the computed case, fails
  where the summed quantity is exactly the floor: two buys of 0.005 at prices 100 and
  101 sum to the double 0.01, which is not below the floor, and leave elasticity at its
  previous value 0, not at the quotient, which is 1000000.
\<close>

theorem elasticity_floor_boundary:
  "1 < length (trades (boundary_engine VariantA))
   \<and> sum_in_order (map trade_q (slice_last (micro_window VariantA)
                                  (trades (boundary_engine VariantA)))) = lit 0.01
   \<and> \<not> lt_n (lit 0.01) (lit 0.01)
   \<and> void_elasticity (state (boundary_engine VariantA)) = Fin 0
   \<and> micro_burst (slice_last (micro_window VariantA) (trades (boundary_engine VariantA)))
       = Fin 1000000
   \<and> void_elasticity (state (boundary_engine VariantA))
       \<noteq> micro_burst (slice_last (micro_window VariantA) (trades (boundary_engine VariantA)))"
proof -
  have len: "1 < length (trades (boundary_engine VariantA))"
    by (simp add: boundary_trades)
  have vol: "sum_in_order (map trade_q (slice_last (micro_window VariantA)
                                  (trades (boundary_engine VariantA)))) = lit 0.01"
    by (rule boundary_volume)
  have nl: "\<not> lt_n (lit 0.01) (lit 0.01)" by (simp add: lit_001)
  have one: "void_elasticity (state (one_trade VariantA)) = Fin 0"
    by (simp add: one_trade_def processTrade_def processTrade_A_def Let_def
          new_VoidEngine_def initial_state_def slice_last_def)
  have el: "void_elasticity (state (boundary_engine VariantA)) = Fin 0"
    using elasticity_A[of "lit 101" "lit 0.005" "Some False" 0 "one_trade VariantA"]
      boundary_volume[of VariantA] nl one
    by (simp add: boundary_engine_def processTrade_def micro_window_def gt_n_def Let_def)
  have mb: "micro_burst (slice_last (micro_window VariantA) (trades (boundary_engine VariantA)))
       = Fin 1000000"
    using rnd_0005 rnd_001 rnd_100
    by (simp add: boundary_trades micro_window_def slice_last_def micro_burst_def
          sum_in_order_def lit_0005)
  show ?thesis using len vol nl el mb by simp
qed

section \<open>Order book mirror: deltas and pressure\<close>

lemma apply_side_well_formed: "well_formed us \<Longrightarrow> fst (apply_side us m) = None"
  by (induction us m rule: apply_side.induct) (simp_all add: well_formed_def)


lemma map_of_apply_side:
  "well_formed us \<Longrightarrow>
     map_of (snd (apply_side us m)) p =
       (case last_update p us of None \<Rightarrow> map_of m p
        | Some q \<Rightarrow> if q = Fin 0 then None else Some q)"
proof (induction us m rule: apply_side.induct)
  case (1 m)
  then show ?case by simp
next
  case (2 p' q us m)
  then have wf: "well_formed us" by (simp add: well_formed_def)
  show ?case
    using "2.IH"[OF wf]
    by (cases "last_update p us") (simp_all add: AList.delete_conv' AList.update_conv')
next
  case (3 us m)
  then show ?case by (simp add: well_formed_def)
qed

lemma apply_side_append:
  "well_formed us \<Longrightarrow> apply_side (us @ vs) m = apply_side vs (snd (apply_side us m))"
  by (induction us m rule: apply_side.induct) (simp_all add: well_formed_def)

lemma distinct_apply_side:
  "distinct (map fst m) \<Longrightarrow> distinct (map fst (snd (apply_side us m)))"
  by (induction us m rule: apply_side.induct)
     (simp_all add: AList.distinct_delete AList.distinct_update)

lemma is_double_0 [simp]: "is_double 0"
  by (simp add: is_double_def)

lemma finite_nonneg_0 [simp]: "finite_nonneg (Fin 0)"
  by (simp add: finite_nonneg_def)

lemma finite_nonneg_numeral [simp]:
  "(numeral n :: int) < 2 ^ 53 \<Longrightarrow> finite_nonneg (Fin (numeral n))"
  using is_double_of_int[of "numeral n"] by (simp add: finite_nonneg_def)

lemma finite_nonneg_1 [simp]: "finite_nonneg (Fin 1)"
  using is_double_of_int[of 1] by (simp add: finite_nonneg_def)

lemma book_ok_delete: "book_ok m \<Longrightarrow> book_ok (AList.delete p m)"
  by (simp add: book_ok_def AList.delete_eq list_all_iff)

lemma book_ok_update: "book_ok m \<Longrightarrow> finite_nonneg q \<Longrightarrow> book_ok (AList.update p q m)"
  by (induction m) (auto simp: book_ok_def)

lemma book_ok_apply_side:
  "levels_ok us \<Longrightarrow> book_ok m \<Longrightarrow> book_ok (snd (apply_side us m))"
proof (induction us m rule: apply_side.induct)
  case (1 m)
  then show ?case by simp
next
  case (2 p q us m)
  from "2.prems" have q: "finite_nonneg q" and us: "levels_ok us"
    by (simp_all add: levels_ok_def)
  have "book_ok (if q = Fin 0 then AList.delete p m else AList.update p q m)"
    using "2.prems"(2) q by (simp add: book_ok_delete book_ok_update)
  then show ?case using "2.IH" us by simp
next
  case (3 us m)
  then show ?case by (simp add: levels_ok_def)
qed

lemma levels_ok_well_formed: "levels_ok us \<Longrightarrow> well_formed us"
  by (auto simp: levels_ok_def well_formed_def list_all_iff)

lemma get_or_0_ok: "book_ok m \<Longrightarrow> finite_nonneg (get_or_0 m k)"
  by (auto simp: get_or_0_def book_ok_def list_all_iff split: option.splits
           dest!: map_of_SomeD)

lemma get_or_0_key:
  "book_ok m \<Longrightarrow> k \<in> fst ` set m \<Longrightarrow> get_or_0 m k = the (map_of m k)"
  by (auto simp: get_or_0_def book_ok_def list_all_iff finite_nonneg_def map_of_eq_None_iff
           split: option.splits dest!: map_of_SomeD)

lemma fold_max_finite:
  assumes "list_all finite_n ks" and "b = NInf \<or> finite_n b"
  shows "(fold (\<lambda>k best. max_n best k) ks b = b \<or> fold (\<lambda>k best. max_n best k) ks b \<in> set ks)
       \<and> \<not> lt_n (fold (\<lambda>k best. max_n best k) ks b) b
       \<and> (\<forall>k \<in> set ks. \<not> lt_n (fold (\<lambda>k best. max_n best k) ks b) k)
       \<and> (ks \<noteq> [] \<longrightarrow> finite_n (fold (\<lambda>k best. max_n best k) ks b))"
  using assms
proof (induction ks arbitrary: b)
  case Nil
  then show ?case by (cases b) (auto simp: finite_n_def)
next
  case (Cons k ks)
  from Cons.prems(1) have fk: "finite_n k" and ks: "list_all finite_n ks" by simp_all
  obtain x where k: "k = Fin x" using fk by (cases k) (simp_all add: finite_n_def)
  let ?b' = "max_n b k"
  have b': "finite_n ?b'" and b'_cases: "?b' = b \<or> ?b' = k"
    and nb: "\<not> lt_n ?b' b" and nk: "\<not> lt_n ?b' k"
    using Cons.prems(2) k by (cases b; auto simp: max_n_def finite_n_def)+
  note ih = Cons.IH[OF ks, of ?b']
  let ?r = "fold (\<lambda>k best. max_n best k) ks ?b'"
  have r: "finite_n ?r" using ih b' by (cases "ks = []") auto
  have trans: "\<not> lt_n ?r c" if "\<not> lt_n ?b' c" "c = NInf \<or> finite_n c" for c
  proof -
    have "\<not> lt_n ?r ?b'" using ih b' by blast
    then show ?thesis using that r b'
      by (cases ?r; cases ?b'; cases c) (auto simp: finite_n_def)
  qed
  show ?case
    using ih b' b'_cases trans[OF nb Cons.prems(2)] trans[OF nk] k r
    by (auto simp: finite_n_def)
qed

lemma max_keys_greatest:
  assumes "list_all finite_n ks" and "ks \<noteq> []"
  shows "max_keys ks \<in> set ks \<and> (\<forall>k \<in> set ks. \<not> lt_n (max_keys ks) k)"
proof -
  note f = fold_max_finite[OF assms(1), of NInf]
  have "finite_n (max_keys ks)" using f assms(2) by (simp add: max_keys_def)
  then have "max_keys ks \<noteq> NInf" by (auto simp: finite_n_def)
  then show ?thesis using f by (auto simp: max_keys_def)
qed

lemma fold_min_finite:
  assumes "list_all finite_n ks" and "b = PInf \<or> finite_n b"
  shows "(fold (\<lambda>k best. min_n best k) ks b = b \<or> fold (\<lambda>k best. min_n best k) ks b \<in> set ks)
       \<and> \<not> lt_n b (fold (\<lambda>k best. min_n best k) ks b)
       \<and> (\<forall>k \<in> set ks. \<not> lt_n k (fold (\<lambda>k best. min_n best k) ks b))
       \<and> (ks \<noteq> [] \<longrightarrow> finite_n (fold (\<lambda>k best. min_n best k) ks b))"
  using assms
proof (induction ks arbitrary: b)
  case Nil
  then show ?case by (cases b) (auto simp: finite_n_def)
next
  case (Cons k ks)
  from Cons.prems(1) have fk: "finite_n k" and ks: "list_all finite_n ks" by simp_all
  obtain x where k: "k = Fin x" using fk by (cases k) (simp_all add: finite_n_def)
  let ?b' = "min_n b k"
  have b': "finite_n ?b'" and b'_cases: "?b' = b \<or> ?b' = k"
    and nb: "\<not> lt_n b ?b'" and nk: "\<not> lt_n k ?b'"
    using Cons.prems(2) k by (cases b; auto simp: min_n_def finite_n_def)+
  note ih = Cons.IH[OF ks, of ?b']
  let ?r = "fold (\<lambda>k best. min_n best k) ks ?b'"
  have r: "finite_n ?r" using ih b' by (cases "ks = []") auto
  have trans: "\<not> lt_n c ?r" if "\<not> lt_n c ?b'" "c = PInf \<or> finite_n c" for c
  proof -
    have "\<not> lt_n ?b' ?r" using ih b' by blast
    then show ?thesis using that r b'
      by (cases ?r; cases ?b'; cases c) (auto simp: finite_n_def)
  qed
  show ?case
    using ih b' b'_cases trans[OF nb Cons.prems(2)] trans[OF nk] k r
    by (auto simp: finite_n_def)
qed

lemma min_keys_least:
  assumes "list_all finite_n ks" and "ks \<noteq> []"
  shows "min_keys ks \<in> set ks \<and> (\<forall>k \<in> set ks. \<not> lt_n k (min_keys ks))"
proof -
  note f = fold_min_finite[OF assms(1), of PInf]
  have "finite_n (min_keys ks)" using f assms(2) by (simp add: min_keys_def)
  then have "min_keys ks \<noteq> PInf" by (auto simp: finite_n_def)
  then show ?thesis using f by (auto simp: min_keys_def)
qed

lemma processBook_well_formed:
  assumes "well_formed bs" and "well_formed as"
  shows "fst (processBook (Some bs) (Some as) e) = None"
    and "book_bids (snd (processBook (Some bs) (Some as) e)) = snd (apply_side bs (book_bids e))"
    and "book_asks (snd (processBook (Some bs) (Some as) e)) = snd (apply_side as (book_asks e))"
  using apply_side_well_formed[OF assms(1), of "book_bids e"]
    apply_side_well_formed[OF assms(2), of "book_asks e"]
  by (simp_all add: processBook_def Let_def)

lemma processBook_pressure:
  assumes "well_formed bs" and "well_formed as"
      and "snd (apply_side bs (book_bids e)) \<noteq> []"
      and "snd (apply_side as (book_asks e)) \<noteq> []"
  shows "void_pressure (state (snd (processBook (Some bs) (Some as) e))) =
           imbalance (get_or_0 (snd (apply_side bs (book_bids e)))
                        (max_keys (map fst (snd (apply_side bs (book_bids e))))))
                     (get_or_0 (snd (apply_side as (book_asks e)))
                        (min_keys (map fst (snd (apply_side as (book_asks e))))))"
    and "imbalance_hist (snd (processBook (Some bs) (Some as) e)) =
           push_hist (void_pressure (state (snd (processBook (Some bs) (Some as) e))))
             (imbalance_hist e)"
  using apply_side_well_formed[OF assms(1), of "book_bids e"]
    apply_side_well_formed[OF assms(2), of "book_asks e"] assms(3,4)
  by (simp_all add: processBook_def Let_def imbalance_def)

text \<open>
  Claim C6, as amended. Whenever a book delta leaves both the bid map and the ask map
  non-empty, and every quantity held in the book and carried by the delta is a finite
  double that is not negative, the recomputed pressure is (bid volume - ask volume) /
  (bid volume + ask volume) in double arithmetic, for the quantities stored under the
  best bid and the best ask, a denominator that is not greater than zero giving 0, and
  it lies in [-1, 1]. With finite prices the best bid is the greatest price of the bid
  map and the best ask the least price of the ask map. The quantities held in the book
  stay finite and non-negative.
\<close>

theorem pressure_bounded:
  assumes "book_ok (book_bids e)" and "book_ok (book_asks e)"
      and "levels_ok bs" and "levels_ok as"
      and "book_bids (snd (processBook (Some bs) (Some as) e)) \<noteq> []"
      and "book_asks (snd (processBook (Some bs) (Some as) e)) \<noteq> []"
  shows "in_unit (void_pressure (state (snd (processBook (Some bs) (Some as) e))))
       \<and> void_pressure (state (snd (processBook (Some bs) (Some as) e))) =
           imbalance
             (get_or_0 (book_bids (snd (processBook (Some bs) (Some as) e)))
                (max_keys (map fst (book_bids (snd (processBook (Some bs) (Some as) e))))))
             (get_or_0 (book_asks (snd (processBook (Some bs) (Some as) e)))
                (min_keys (map fst (book_asks (snd (processBook (Some bs) (Some as) e))))))
       \<and> (list_all finite_n (map fst (book_bids (snd (processBook (Some bs) (Some as) e)))) \<longrightarrow>
            max_keys (map fst (book_bids (snd (processBook (Some bs) (Some as) e))))
              \<in> fst ` set (book_bids (snd (processBook (Some bs) (Some as) e)))
            \<and> (\<forall>k \<in> fst ` set (book_bids (snd (processBook (Some bs) (Some as) e))).
                 \<not> lt_n (max_keys (map fst
                            (book_bids (snd (processBook (Some bs) (Some as) e))))) k)
            \<and> get_or_0 (book_bids (snd (processBook (Some bs) (Some as) e)))
                (max_keys (map fst (book_bids (snd (processBook (Some bs) (Some as) e)))))
              = the (map_of (book_bids (snd (processBook (Some bs) (Some as) e)))
                  (max_keys (map fst (book_bids (snd (processBook (Some bs) (Some as) e)))))))
       \<and> (list_all finite_n (map fst (book_asks (snd (processBook (Some bs) (Some as) e)))) \<longrightarrow>
            min_keys (map fst (book_asks (snd (processBook (Some bs) (Some as) e))))
              \<in> fst ` set (book_asks (snd (processBook (Some bs) (Some as) e)))
            \<and> (\<forall>k \<in> fst ` set (book_asks (snd (processBook (Some bs) (Some as) e))).
                 \<not> lt_n k (min_keys (map fst
                            (book_asks (snd (processBook (Some bs) (Some as) e))))))
            \<and> get_or_0 (book_asks (snd (processBook (Some bs) (Some as) e)))
                (min_keys (map fst (book_asks (snd (processBook (Some bs) (Some as) e)))))
              = the (map_of (book_asks (snd (processBook (Some bs) (Some as) e)))
                  (min_keys (map fst (book_asks (snd (processBook (Some bs) (Some as) e)))))))
       \<and> book_ok (book_bids (snd (processBook (Some bs) (Some as) e)))
       \<and> book_ok (book_asks (snd (processBook (Some bs) (Some as) e)))"
proof -
  let ?B = "snd (apply_side bs (book_bids e))" and ?A = "snd (apply_side as (book_asks e))"
  have wf: "well_formed bs" "well_formed as"
    using assms(3,4) by (simp_all add: levels_ok_well_formed)
  have books: "book_bids (snd (processBook (Some bs) (Some as) e)) = ?B"
              "book_asks (snd (processBook (Some bs) (Some as) e)) = ?A"
    using processBook_well_formed(2,3)[OF wf] by simp_all
  have ne: "?B \<noteq> []" "?A \<noteq> []" using assms(5,6) books by simp_all
  have ok: "book_ok ?B" "book_ok ?A"
    using assms(1-4) by (simp_all add: book_ok_apply_side)
  have p: "void_pressure (state (snd (processBook (Some bs) (Some as) e))) =
             imbalance (get_or_0 ?B (max_keys (map fst ?B))) (get_or_0 ?A (min_keys (map fst ?A)))"
    using wf ne by (rule processBook_pressure(1))
  have bound: "in_unit (imbalance (get_or_0 ?B (max_keys (map fst ?B)))
                          (get_or_0 ?A (min_keys (map fst ?A))))"
    by (rule imbalance_in_unit) (simp_all add: get_or_0_ok ok)
  have best_bid: "max_keys (map fst ?B) \<in> fst ` set ?B
      \<and> (\<forall>k \<in> fst ` set ?B. \<not> lt_n (max_keys (map fst ?B)) k)
      \<and> get_or_0 ?B (max_keys (map fst ?B)) = the (map_of ?B (max_keys (map fst ?B)))"
    if "list_all finite_n (map fst ?B)"
  proof -
    have g: "max_keys (map fst ?B) \<in> set (map fst ?B)
        \<and> (\<forall>k \<in> set (map fst ?B). \<not> lt_n (max_keys (map fst ?B)) k)"
      using that ne(1) by (intro max_keys_greatest) simp_all
    then show ?thesis using get_or_0_key[OF ok(1), of "max_keys (map fst ?B)"] by simp
  qed
  have best_ask: "min_keys (map fst ?A) \<in> fst ` set ?A
      \<and> (\<forall>k \<in> fst ` set ?A. \<not> lt_n k (min_keys (map fst ?A)))
      \<and> get_or_0 ?A (min_keys (map fst ?A)) = the (map_of ?A (min_keys (map fst ?A)))"
    if "list_all finite_n (map fst ?A)"
  proof -
    have g: "min_keys (map fst ?A) \<in> set (map fst ?A)
        \<and> (\<forall>k \<in> set (map fst ?A). \<not> lt_n k (min_keys (map fst ?A)))"
      using that ne(2) by (intro min_keys_least) simp_all
    then show ?thesis using get_or_0_key[OF ok(2), of "min_keys (map fst ?A)"] by simp
  qed
  show ?thesis
    unfolding books using p[unfolded books] bound ok best_bid best_ask by simp
qed

lemma two_sided_books:
  "book_bids two_sided = [(Fin 100, Fin 3), (Fin 99, Fin 5)]"
  "book_asks two_sided = [(Fin 101, Fin 1)]"
  by (simp_all add: two_sided_def processBook_def Let_def new_VoidEngine_def)

lemma two_sided_pressure: "void_pressure (state two_sided) = Fin (1 / 2)"
  by (simp add: two_sided_def processBook_def Let_def new_VoidEngine_def get_or_0_def
        max_keys_def min_keys_def max_n_def min_n_def gt_n_def)

theorem pressure_bounded_witness:
  "book_ok (book_bids (snd (new_VoidEngine VariantA False)))
   \<and> book_ok (book_asks (snd (new_VoidEngine VariantA False)))
   \<and> levels_ok [Level (lit 100) (lit 3), Level (lit 99) (lit 5)]
   \<and> levels_ok [Level (lit 101) (lit 1)]
   \<and> book_bids two_sided \<noteq> [] \<and> book_asks two_sided \<noteq> []
   \<and> void_pressure (state two_sided) = Fin (1 / 2)
   \<and> in_unit (void_pressure (state two_sided))"
proof -
  have h1: "book_ok (book_bids (snd (new_VoidEngine VariantA False)))"
    and h2: "book_ok (book_asks (snd (new_VoidEngine VariantA False)))"
    by (simp_all add: new_VoidEngine_def book_ok_def)
  have h3: "levels_ok [Level (lit 100) (lit 3), Level (lit 99) (lit 5)]"
    and h4: "levels_ok [Level (lit 101) (lit 1)]"
    by (simp_all add: levels_ok_def)
  have h5: "book_bids (snd (processBook (Some [Level (lit 100) (lit 3), Level (lit 99) (lit 5)])
              (Some [Level (lit 101) (lit 1)]) (snd (new_VoidEngine VariantA False)))) \<noteq> []"
    and h6: "book_asks (snd (processBook (Some [Level (lit 100) (lit 3), Level (lit 99) (lit 5)])
              (Some [Level (lit 101) (lit 1)]) (snd (new_VoidEngine VariantA False)))) \<noteq> []"
    using two_sided_books by (simp_all add: two_sided_def)
  have "in_unit (void_pressure (state two_sided))"
    using pressure_bounded[OF h1 h2 h3 h4 h5 h6] unfolding two_sided_def by blast
  then show ?thesis
    using h1 h2 h3 h4 two_sided_books two_sided_pressure by simp
qed

text \<open>
  Without the condition on the quantities the bound fails. A bid of 3 at 100 and an ask
  of -1 at 101 leave both maps non-empty and set the pressure to 2; a bid whose quantity
  is infinite leaves them non-empty and sets the pressure to not-a-number.
\<close>

theorem pressure_negative_quantity:
  "book_bids negative_ask \<noteq> [] \<and> book_asks negative_ask \<noteq> []
   \<and> void_pressure (state negative_ask) = Fin 2
   \<and> \<not> in_unit (void_pressure (state negative_ask))
   \<and> book_bids infinite_bid \<noteq> [] \<and> book_asks infinite_bid \<noteq> []
   \<and> void_pressure (state infinite_bid) = NaN
   \<and> \<not> in_unit (void_pressure (state infinite_bid))"
  by (simp add: negative_ask_def infinite_bid_def processBook_def Let_def new_VoidEngine_def
        get_or_0_def max_keys_def min_keys_def max_n_def min_n_def gt_n_def sub_n_def
        in_unit_def)

text \<open>
  Claim C7. A delta whose entries are all pairs is applied to the end, the bid pairs to
  the bid map and the ask pairs to the ask map, each pair in turn: afterwards the entry
  of a price is decided by the last pair of the delta for that price, a quantity of
  exactly zero removing the entry and any other quantity storing it under the price,
  and a price with no pair in the delta keeps its entry. In particular a zero-quantity
  pair removes the level, and a later pair of the same price with a non-zero quantity
  restores it with the new quantity, within one delta and across two deltas. The keys
  of a map stay distinct.
\<close>

theorem book_delta_upsert_delete:
  "(well_formed bs \<and> well_formed as \<longrightarrow>
      fst (processBook (Some bs) (Some as) e) = None
      \<and> map_of (book_bids (snd (processBook (Some bs) (Some as) e))) p =
          (case last_update p bs of None \<Rightarrow> map_of (book_bids e) p
           | Some q \<Rightarrow> if q = Fin 0 then None else Some q)
      \<and> map_of (book_asks (snd (processBook (Some bs) (Some as) e))) p =
          (case last_update p as of None \<Rightarrow> map_of (book_asks e) p
           | Some q \<Rightarrow> if q = Fin 0 then None else Some q))
   \<and> apply_side (Level p q # us) m = apply_side us (snd (apply_side [Level p q] m))
   \<and> map_of (snd (apply_side [Level p q] m)) =
       (if q = Fin 0 then (map_of m)(p := None) else (map_of m)(p \<mapsto> q))
   \<and> p \<notin> fst ` set (snd (apply_side [Level p (Fin 0)] m))
   \<and> (distinct (map fst m) \<longrightarrow> distinct (map fst (snd (apply_side us m))))
   \<and> (q \<noteq> Fin 0 \<and> well_formed us \<longrightarrow>
        map_of (snd (apply_side (Level p (Fin 0) # us @ [Level p q]) m)) p = Some q)
   \<and> (q \<noteq> Fin 0 \<longrightarrow>
        map_of (book_bids (snd (processBook (Some [Level p q]) (Some [])
                  (snd (processBook (Some [Level p (Fin 0)]) (Some []) e))))) p = Some q)
   \<and> (q \<noteq> Fin 0 \<longrightarrow>
        map_of (book_asks (snd (processBook (Some []) (Some [Level p q])
                  (snd (processBook (Some []) (Some [Level p (Fin 0)]) e))))) p = Some q)"
proof (intro conjI impI)
  assume wf: "well_formed bs \<and> well_formed as"
  then have b: "well_formed bs" and a: "well_formed as" by simp_all
  show "fst (processBook (Some bs) (Some as) e) = None"
    using b a by (rule processBook_well_formed(1))
  show "map_of (book_bids (snd (processBook (Some bs) (Some as) e))) p =
          (case last_update p bs of None \<Rightarrow> map_of (book_bids e) p
           | Some q \<Rightarrow> if q = Fin 0 then None else Some q)"
    using processBook_well_formed(2)[OF b a, of e] map_of_apply_side[OF b, of "book_bids e" p]
    by simp
  show "map_of (book_asks (snd (processBook (Some bs) (Some as) e))) p =
          (case last_update p as of None \<Rightarrow> map_of (book_asks e) p
           | Some q \<Rightarrow> if q = Fin 0 then None else Some q)"
    using processBook_well_formed(3)[OF b a, of e] map_of_apply_side[OF a, of "book_asks e" p]
    by simp
next
  show "apply_side (Level p q # us) m = apply_side us (snd (apply_side [Level p q] m))"
    by simp
  show "map_of (snd (apply_side [Level p q] m)) =
       (if q = Fin 0 then (map_of m)(p := None) else (map_of m)(p \<mapsto> q))"
    by (simp add: AList.delete_conv' AList.update_conv')
  show "p \<notin> fst ` set (snd (apply_side [Level p (Fin 0)] m))"
    by (auto simp: AList.delete_eq)
next
  assume "distinct (map fst m)"
  then show "distinct (map fst (snd (apply_side us m)))" by (rule distinct_apply_side)
next
  assume h: "q \<noteq> Fin 0 \<and> well_formed us"
  then have wf: "well_formed (Level p (Fin 0) # us)" by (simp add: well_formed_def)
  have "apply_side ((Level p (Fin 0) # us) @ [Level p q]) m =
          apply_side [Level p q] (snd (apply_side (Level p (Fin 0) # us) m))"
    using wf by (rule apply_side_append)
  then show "map_of (snd (apply_side (Level p (Fin 0) # us @ [Level p q]) m)) p = Some q"
    using h by (simp add: AList.update_conv')
next
  have wf: "well_formed [Level p q]" "well_formed [Level p (Fin 0)]" "well_formed []"
    by (simp_all add: well_formed_def)
  assume q: "q \<noteq> Fin 0"
  show "map_of (book_bids (snd (processBook (Some [Level p q]) (Some [])
                  (snd (processBook (Some [Level p (Fin 0)]) (Some []) e))))) p = Some q"
    using q by (simp add: processBook_well_formed(2)[OF wf(1) wf(3)] AList.update_conv')
  show "map_of (book_asks (snd (processBook (Some []) (Some [Level p q])
                  (snd (processBook (Some []) (Some [Level p (Fin 0)]) e))))) p = Some q"
    using q by (simp add: processBook_well_formed(3)[OF wf(3) wf(1)] AList.update_conv')
qed

theorem book_delta_upsert_delete_witness:
  "well_formed [Level (lit 100) (lit 3), Level (lit 99) (lit 5), Level (lit 100) (lit 0),
                Level (lit 98) (lit 7), Level (lit 100) (lit 2)]
   \<and> well_formed [Level (lit 101) (lit 1), Level (lit 101) (lit 0)]
   \<and> map_of (book_bids restored_bids) (lit 100) = Some (lit 2)
   \<and> map_of (book_bids restored_bids) (lit 99) = Some (lit 5)
   \<and> map_of (book_bids restored_bids) (lit 98) = Some (lit 7)
   \<and> map_of (book_asks restored_bids) (lit 101) = None"
proof -
  have b: "well_formed [Level (lit 100) (lit 3), Level (lit 99) (lit 5),
                Level (lit 100) (lit 0), Level (lit 98) (lit 7), Level (lit 100) (lit 2)]"
    and a: "well_formed [Level (lit 101) (lit 1), Level (lit 101) (lit 0)]"
    by (simp_all add: well_formed_def)
  note t = book_delta_upsert_delete[where
      bs = "[Level (lit 100) (lit 3), Level (lit 99) (lit 5),
             Level (lit 100) (lit 0), Level (lit 98) (lit 7), Level (lit 100) (lit 2)]"
      and as = "[Level (lit 101) (lit 1), Level (lit 101) (lit 0)]"
      and e = "snd (new_VoidEngine VariantA False)" and q = NaN and us = "[]" and m = "[]",
      folded restored_bids_def]
  have "map_of (book_bids restored_bids) (lit 100) = Some (lit 2)"
    using t[where p = "lit 100"] b a by simp
  moreover have "map_of (book_bids restored_bids) (lit 99) = Some (lit 5)"
    using t[where p = "lit 99"] b a by (simp add: new_VoidEngine_def)
  moreover have "map_of (book_bids restored_bids) (lit 98) = Some (lit 7)"
    using t[where p = "lit 98"] b a by (simp add: new_VoidEngine_def)
  moreover have "map_of (book_asks restored_bids) (lit 101) = None"
    using t[where p = "lit 101"] b a by simp
  ultimately show ?thesis using b a by blast
qed

section \<open>Regime classifier\<close>

lemma fold_add_n:
  "fold (\<lambda>b a. add_n a (f b)) xs c = fold (\<lambda>x s. add_n s x) (map f xs) c"
  by (induction xs arbitrary: c) simp_all

lemma variance_of_population: "variance_of pl hist = population_variance pl hist"
  using fold_add_n[of "\<lambda>b. b" hist "lit 0"]
    fold_add_n[of "\<lambda>b. math_pow pl (sub_n b (mean_of hist)) (lit 2)" hist "lit 0"]
  by (simp add: variance_of_def population_variance_def mean_of_def Let_def sum_in_order_def)

lemma updateRegime_domain_state:
  "domain_state (state (updateRegime pl v e)) =
     (if length (imbalance_hist e) > 10
      then classify v (math_sqrt pl (population_variance pl (imbalance_hist e)))
      else domain_state (state e))"
  by (cases v)
     (simp_all add: updateRegime_def updateRegime_A_def updateRegime_B_def Let_def
        classify_def three_way_def variance_of_population)

lemma updateRegime_frame:
  "imbalance_hist (updateRegime pl v e) = imbalance_hist e"
  by (cases v) (simp_all add: updateRegime_def updateRegime_A_def updateRegime_B_def Let_def)

lemma calculateMonolith_frame:
  "imbalance_hist (snd (calculateMonolith v w)) = imbalance_hist (snd w)"
  "domain_state (state (snd (calculateMonolith v w))) = domain_state (state (snd w))"
  by (cases v; simp add: calculateMonolith_def calculateMonolith_A_def
        calculateMonolith_B_def Let_def)+

lemma publish_regime:
  "imbalance_hist (snd (fst (publish pl v w))) = imbalance_hist (snd w)"
  "domain_state (state (snd (fst (publish pl v w)))) =
     (if length (imbalance_hist (snd w)) > 10
      then classify v (math_sqrt pl (population_variance pl (imbalance_hist (snd w))))
      else domain_state (state (snd w)))"
  by (simp_all add: publish_def Let_def calculateMonolith_frame updateRegime_frame
        updateRegime_domain_state)

lemma processTrade_frame:
  "imbalance_hist (processTrade v p q m d e) = imbalance_hist e"
  "domain_state (state (processTrade v p q m d e)) = domain_state (state e)"
  by (cases v; simp add: processTrade_def processTrade_A_def processTrade_B_def Let_def)+

lemma length_push_hist:
  "length (push_hist r hist) = (if length hist < 120 then Suc (length hist) else length hist)"
  by (simp add: push_hist_def Let_def)

lemma processBook_hist:
  "processBook bids asks e = (r, e1) \<Longrightarrow>
     domain_state (state e1) = domain_state (state e)
     \<and> length (imbalance_hist e) \<le> length (imbalance_hist e1)
     \<and> (length (imbalance_hist e) \<le> 120 \<longrightarrow> length (imbalance_hist e1) \<le> 120)"
  by (auto simp: processBook_def Let_def length_push_hist split: option.splits if_splits)

lemma publish_regime_inv:
  assumes "length (imbalance_hist (snd w)) \<le> 120"
      and "length (imbalance_hist (snd w)) \<le> 10
             \<longrightarrow> domain_state (state (snd w)) = ''CALCULATING''"
  shows "regime_inv pl v (fst (publish pl v w))"
  using assms by (auto simp: regime_inv_def publish_regime regime_of_def)

lemma regime_inv_pre:
  "regime_inv pl v w \<Longrightarrow>
     length (imbalance_hist (snd w)) \<le> 120
     \<and> (length (imbalance_hist (snd w)) \<le> 10
          \<longrightarrow> domain_state (state (snd w)) = ''CALCULATING'')"
  by (auto simp: regime_inv_def regime_of_def)

lemma onmessage_regime_inv:
  assumes inv: "regime_inv pl v w"
  shows "regime_inv pl v (fst (onmessage pl v d m w))"
proof (cases m)
  case (TradeMsg x)
  show ?thesis
  proof (cases x)
    case None
    then show ?thesis using inv TradeMsg by simp
  next
    case (Some td)
    show ?thesis unfolding TradeMsg Some onmessage.simps
      by (rule publish_regime_inv)
         (use regime_inv_pre[OF inv] in \<open>simp_all add: processTrade_frame\<close>)
  qed
next
  case (DepthMsg x)
  show ?thesis
  proof (cases x)
    case None
    then show ?thesis using inv DepthMsg by simp
  next
    case (Some dd)
    obtain r e1 where pb: "processBook (data_b dd) (data_a dd) (snd w) = (r, e1)"
      by (cases "processBook (data_b dd) (data_a dd) (snd w)")
    note hist = processBook_hist[OF pb]
    show ?thesis
    proof (cases r)
      case None
      have "regime_inv pl v (fst (publish pl v (fst w, e1)))"
        by (rule publish_regime_inv) (use regime_inv_pre[OF inv] hist in auto)
      then show ?thesis using DepthMsg Some pb None by simp
    next
      case (Some err)
      then have "imbalance_hist e1 = imbalance_hist (snd w)"
        using processBook_raise[of "data_b dd" "data_a dd" "snd w" err e1] pb by simp
      then show ?thesis using DepthMsg \<open>x = Some dd\<close> pb Some inv hist
        by (simp add: regime_inv_def)
    qed
  qed
next
  case OtherMsg
  show ?thesis unfolding OtherMsg onmessage.simps
    by (rule publish_regime_inv) (use regime_inv_pre[OF inv] in simp_all)
qed (use inv in simp_all)

lemma run_regime_inv: "regime_inv pl v (fst (run pl v evs (new_VoidEngine v sub)))"
proof -
  have "regime_inv pl v (new_VoidEngine v sub)"
    by (simp add: regime_inv_def new_VoidEngine_def initial_state_def regime_of_def)
  then show ?thesis
    using run_invariant[where P = "regime_inv pl v" and v = v and pl = pl,
        OF onmessage_regime_inv]
    by blast
qed

lemma hist_length_mono_step:
  "length (imbalance_hist (snd w))
     \<le> length (imbalance_hist (snd (fst (onmessage pl v d m w))))"
proof (cases m)
  case (TradeMsg x)
  then show ?thesis by (cases x) (simp_all add: publish_regime processTrade_frame)
next
  case (DepthMsg x)
  show ?thesis
  proof (cases x)
    case None
    then show ?thesis using DepthMsg by simp
  next
    case (Some dd)
    obtain r e1 where pb: "processBook (data_b dd) (data_a dd) (snd w) = (r, e1)"
      by (cases "processBook (data_b dd) (data_a dd) (snd w)")
    then show ?thesis using DepthMsg Some processBook_hist[OF pb]
      by (cases r) (simp_all add: publish_regime)
  qed
qed (simp_all add: publish_regime)

lemma hist_length_mono_run:
  "n \<le> length (imbalance_hist (snd w))
     \<Longrightarrow> n \<le> length (imbalance_hist (snd (fst (run pl v evs w))))"
proof (rule run_invariant[where P = "\<lambda>w. n \<le> length (imbalance_hist (snd w))"])
  fix w :: "heap \<times> VoidEngine" and d m
  assume "n \<le> length (imbalance_hist (snd w))"
  then show "n \<le> length (imbalance_hist (snd (fst (onmessage pl v d m w))))"
    using hist_length_mono_step[of w pl v d m] by linarith
qed

lemma classify_in_regimes: "classify v x \<in> set (regimes v)"
  by (cases v) (simp_all add: classify_def regimes_def three_way_def)

lemma calculating_not_regime: "''CALCULATING'' \<notin> set (regimes v)"
  by (cases v) (simp_all add: regimes_def)

lemma sqrt_sixteenth: "sqrt (1 / 16) = 1 / 4"
  by (rule real_sqrt_unique) (simp_all add: power2_eq_square)

lemma rnd_minus: "rnd (- x) = neg_n (rnd x)"
  by (auto simp: rnd_def nearest_minus)

lemma rnd_sixteenths:
  "rnd (1 / 16) = Fin (1 / 16)" "rnd (1 / 8) = Fin (1 / 8)" "rnd (3 / 16) = Fin (3 / 16)"
  "rnd (5 / 16) = Fin (5 / 16)" "rnd (3 / 8) = Fin (3 / 8)" "rnd (7 / 16) = Fin (7 / 16)"
  "rnd (9 / 16) = Fin (9 / 16)" "rnd (5 / 8) = Fin (5 / 8)" "rnd (11 / 16) = Fin (11 / 16)"
  "rnd (3 / 4) = Fin (3 / 4)"
proof -
  show "rnd (1 / 16) = Fin (1 / 16)" by (rule rnd_eval[of _ "- 4"]) simp_all
  show "rnd (1 / 8) = Fin (1 / 8)" by (rule rnd_eval[of _ "- 3"]) simp_all
  show "rnd (3 / 16) = Fin (3 / 16)" by (rule rnd_eval[of _ "- 3"]) simp_all
  show "rnd (5 / 16) = Fin (5 / 16)" by (rule rnd_eval[of _ "- 2"]) simp_all
  show "rnd (3 / 8) = Fin (3 / 8)" by (rule rnd_eval[of _ "- 2"]) simp_all
  show "rnd (7 / 16) = Fin (7 / 16)" by (rule rnd_eval[of _ "- 2"]) simp_all
  show "rnd (9 / 16) = Fin (9 / 16)" by (rule rnd_eval[of _ "- 1"]) simp_all
  show "rnd (5 / 8) = Fin (5 / 8)" by (rule rnd_eval[of _ "- 1"]) simp_all
  show "rnd (11 / 16) = Fin (11 / 16)" by (rule rnd_eval[of _ "- 1"]) simp_all
  show "rnd (3 / 4) = Fin (3 / 4)" by (rule rnd_eval[of _ "- 1"]) simp_all
qed

lemma lit_quarter: "lit (1 / 4) = Fin (1 / 4)"
  by (simp add: lit_def)

lemma update_nonempty: "AList.update k x m \<noteq> []"
  by (cases m) auto

lemma depth_tick_step:
  "length (imbalance_hist (snd (fst (onmessage pl v d (snd depth_tick) w)))) =
     (if length (imbalance_hist (snd w)) < 120 then Suc (length (imbalance_hist (snd w)))
      else length (imbalance_hist (snd w)))"
proof -
  let ?pb = "processBook (Some [Level (lit 100) (lit 1)]) (Some [Level (lit 101) (lit 1)]) (snd w)"
  have wf: "well_formed [Level (lit 100) (lit 1)]" "well_formed [Level (lit 101) (lit 1)]"
    by (simp_all add: well_formed_def)
  have ne: "snd (apply_side [Level (lit 100) (lit 1)] (book_bids (snd w))) \<noteq> []"
           "snd (apply_side [Level (lit 101) (lit 1)] (book_asks (snd w))) \<noteq> []"
    by (simp_all add: update_nonempty)
  have f: "fst ?pb = None" using wf by (rule processBook_well_formed(1))
  have "onmessage pl v d (snd depth_tick) w = publish pl v (fst w, snd ?pb)"
    unfolding depth_tick_def using f by (simp add: case_prod_beta del: apply_side.simps)
  then show ?thesis
    using processBook_pressure(2)[OF wf ne] by (simp add: publish_regime length_push_hist)
qed

lemma depth_ticks_hist:
  "length (imbalance_hist (snd w)) + n \<le> 120 \<Longrightarrow>
     length (imbalance_hist (snd (fst (run pl v (replicate n depth_tick) w)))) =
       length (imbalance_hist (snd w)) + n"
proof (induction n arbitrary: w)
  case 0
  then show ?case by simp
next
  case (Suc n)
  let ?w1 = "fst (onmessage pl v 0 (snd depth_tick) w)"
  have one: "length (imbalance_hist (snd ?w1)) = Suc (length (imbalance_hist (snd w)))"
    using Suc.prems depth_tick_step[of pl v 0 w] by simp
  have "run pl v (replicate (Suc n) depth_tick) w =
          (let r = onmessage pl v 0 (snd depth_tick) w;
               rest = run pl v (replicate n depth_tick) (fst r)
           in (fst rest, (case snd r of Published s \<Rightarrow> [s] | _ \<Rightarrow> []) @ snd rest))"
    by (simp add: depth_tick_def)
  then have "fst (run pl v (replicate (Suc n) depth_tick) w) =
               fst (run pl v (replicate n depth_tick) ?w1)"
    by (simp add: Let_def)
  then show ?case using Suc.IH[of ?w1] Suc.prems one by simp
qed

text \<open>
  Claim C8. In every state reached from a new engine the regime is a function of the
  retained imbalance history, which holds at most 120 samples: with 10 samples or fewer
  it is the initial placeholder CALCULATING, and with more it is the three-way
  classification of the population standard deviation of the whole history (below the
  low threshold the stagnant regime, from the low threshold and below the high one the
  middle regime, otherwise the volatile regime). The standard deviation is the one the
  engine computes in double arithmetic: the samples are added up in the order of the
  history, the mean is their sum divided by their number, the squared distances to the
  mean are added up in the same order and divided by the number of samples, and the
  square root of the quotient is taken, the square and the square root being those of
  the platform; the thresholds are the doubles nearest to the decimal constants. This
  holds on every platform. \<open>updateRegime\<close> leaves the regime as it is with 10 samples
  or fewer. A volatility of 0.25 with the thresholds 0.10 and 0.35 gives the middle
  regime; a volatility that is not a number gives the volatile one.
\<close>

theorem regime_function_of_history:
  "domain_state (state (snd (fst (run pl v evs (new_VoidEngine v sub))))) =
     regime_of pl v (imbalance_hist (snd (fst (run pl v evs (new_VoidEngine v sub)))))
   \<and> length (imbalance_hist (snd (fst (run pl v evs (new_VoidEngine v sub))))) \<le> 120
   \<and> domain_state (state (updateRegime pl v e)) =
       (if length (imbalance_hist e) \<le> 10 then domain_state (state e)
        else classify v (math_sqrt pl (population_variance pl (imbalance_hist e))))
   \<and> three_way (lit 0.10) (lit 0.35) stagnant middle volatile (lit 0.25) = middle
   \<and> classify VariantA (lit 0.25) = ''EQUILIBRIUM''
   \<and> classify VariantB (lit 0.25) = ''STABLE''
   \<and> three_way lo hi stagnant middle volatile NaN = volatile"
  using run_regime_inv[of pl v evs sub]
  by (simp add: regime_inv_def updateRegime_domain_state three_way_def classify_def
        lit_quarter lit_01 lit_035 lit_04)

lemma swinging_variance:
  "population_variance reference_platform swinging_hist = Fin (1 / 16)"
  by (simp add: population_variance_def swinging_hist_def reference_platform_def
        square_n_def sum_in_order_def rnd_minus rnd_sixteenths)

theorem regime_function_of_history_witness:
  "length swinging_hist = 12
   \<and> math_sqrt reference_platform (population_variance reference_platform swinging_hist) =
       lit 0.25
   \<and> domain_state (state (updateRegime reference_platform VariantA
        ((snd (new_VoidEngine VariantA True))\<lparr>imbalance_hist := swinging_hist\<rparr>))) =
       ''EQUILIBRIUM''"
proof -
  have len: "length swinging_hist = 12" by (simp add: swinging_hist_def)
  have sd: "math_sqrt reference_platform
              (population_variance reference_platform swinging_hist) = lit 0.25"
    unfolding swinging_variance
    by (simp add: reference_platform_def sqrt_n_def sqrt_sixteenth lit_quarter)
  note t = regime_function_of_history[where pl = reference_platform and v = VariantA
        and evs = "[]" and sub = True
        and e = "(snd (new_VoidEngine VariantA True))\<lparr>imbalance_hist := swinging_hist\<rparr>"
        and lo = NaN and hi = NaN and stagnant = "[]" and middle = "[]" and volatile = "[]"]
  have cl: "classify VariantA (lit 0.25) = ''EQUILIBRIUM''" using t by blast
  have "domain_state (state (updateRegime reference_platform VariantA
        ((snd (new_VoidEngine VariantA True))\<lparr>imbalance_hist := swinging_hist\<rparr>))) =
       classify VariantA
         (math_sqrt reference_platform (population_variance reference_platform swinging_hist))"
    using t by (simp add: len)
  then show ?thesis using len sd cl by simp
qed

text \<open>
  Claim C10. Once the imbalance history of a state reached from a new engine holds more
  than 10 samples, it holds more than 10 samples after any further deliveries, and the
  regime is then one of the three regime values of the variant, never the placeholder
  CALCULATING.
\<close>

theorem regime_never_reverts:
  assumes "10 < length (imbalance_hist (snd (fst (run pl v evs1 (new_VoidEngine v sub)))))"
  shows "10 < length (imbalance_hist (snd (fst (run pl v (evs1 @ evs2) (new_VoidEngine v sub)))))
       \<and> domain_state (state (snd (fst (run pl v (evs1 @ evs2) (new_VoidEngine v sub)))))
           \<in> set (regimes v)
       \<and> domain_state (state (snd (fst (run pl v (evs1 @ evs2) (new_VoidEngine v sub)))))
           \<noteq> ''CALCULATING''"
proof -
  let ?w = "fst (run pl v (evs1 @ evs2) (new_VoidEngine v sub))"
  have "11 \<le> length (imbalance_hist (snd (fst (run pl v evs1 (new_VoidEngine v sub)))))"
    using assms by simp
  then have "11 \<le> length (imbalance_hist (snd ?w))"
    unfolding run_append by (rule hist_length_mono_run)
  then have len: "10 < length (imbalance_hist (snd ?w))" by simp
  have "regime_inv pl v ?w" by (rule run_regime_inv)
  then have "domain_state (state (snd ?w)) =
               classify v (math_sqrt pl (population_variance pl (imbalance_hist (snd ?w))))"
    using len by (simp add: regime_inv_def regime_of_def)
  then show ?thesis
    using len classify_in_regimes[of v] calculating_not_regime[of v] by metis
qed

theorem regime_never_reverts_witness:
  "10 < length (imbalance_hist (snd (fst (run reference_platform VariantA
                  (replicate 11 depth_tick) (new_VoidEngine VariantA True)))))
   \<and> domain_state (state (snd (fst (run reference_platform VariantA
                  (replicate 11 depth_tick @ [(0, Unparseable)])
                  (new_VoidEngine VariantA True)))))
       \<noteq> ''CALCULATING''"
proof -
  have h: "10 < length (imbalance_hist (snd (fst (run reference_platform VariantA
                  (replicate 11 depth_tick) (new_VoidEngine VariantA True)))))"
    using depth_ticks_hist[of "new_VoidEngine VariantA True" 11 reference_platform VariantA]
    by (simp add: new_VoidEngine_def)
  show ?thesis
    using h regime_never_reverts[OF h, of "[(0, Unparseable)]"] by blast
qed

section \<open>Snapshots and the heap\<close>

lemma calculateMonolith_heap:
  "length (fst (calculateMonolith v w)) = Suc (length (fst w))"
  "take (length (fst w)) (fst (calculateMonolith v w)) = fst w"
  "titans (state (snd (calculateMonolith v w))) = length (fst w)"
  by (cases v; simp add: calculateMonolith_def calculateMonolith_A_def
        calculateMonolith_B_def Let_def)+

lemma publish_heap:
  "length (fst (fst (publish pl v w))) = Suc (length (fst w))"
  "take (length (fst w)) (fst (fst (publish pl v w))) = fst w"
  "titans (state (snd (fst (publish pl v w)))) = length (fst w)"
  "snd (publish pl v w) \<noteq> Threw err"
  "snd (publish pl v w) = Published s \<Longrightarrow> s = state (snd (fst (publish pl v w)))"
  using calculateMonolith_heap[where v = v and w = "(fst w, updateRegime pl v (snd w))"]
  by (simp_all add: publish_def Let_def split: if_splits)

lemma onmessage_heap:
  "take (length (fst w)) (fst (fst (onmessage pl v d m w))) = fst w
   \<and> length (fst w) \<le> length (fst (fst (onmessage pl v d m w)))
   \<and> (snd (onmessage pl v d m w) = Published s \<longrightarrow>
        titans s = length (fst w)
        \<and> length (fst (fst (onmessage pl v d m w))) = Suc (length (fst w)))"
proof (cases m)
  case (TradeMsg x)
  then show ?thesis
    using publish_heap[where pl = pl and v = v and w = "(fst w, processTrade v (data_p (the x))
              (data_q (the x)) (data_m (the x)) d (snd w))"]
    by (cases x) auto
next
  case (DepthMsg x)
  show ?thesis
  proof (cases x)
    case None
    then show ?thesis using DepthMsg by simp
  next
    case (Some dd)
    obtain r e1 where pb: "processBook (data_b dd) (data_a dd) (snd w) = (r, e1)"
      by (cases "processBook (data_b dd) (data_a dd) (snd w)")
    show ?thesis
      using DepthMsg Some pb publish_heap[where pl = pl and v = v and w = "(fst w, e1)"]
      by (cases r) auto
  qed
next
  case OtherMsg
  then show ?thesis using publish_heap[where pl = pl and v = v and w = w] by auto
qed simp_all

lemma run_heap:
  "take (length (fst w)) (fst (fst (run pl v evs w))) = fst w
   \<and> length (fst w) \<le> length (fst (fst (run pl v evs w)))
   \<and> sorted_wrt (<) (map titans (snd (run pl v evs w)))
   \<and> (\<forall>s \<in> set (snd (run pl v evs w)).
        length (fst w) \<le> titans s \<and> titans s < length (fst (fst (run pl v evs w))))"
proof (induction evs arbitrary: w)
  case Nil
  then show ?case by simp
next
  case (Cons ev evs)
  obtain d m where ev: "ev = (d, m)" by (cases ev)
  define r where "r = onmessage pl v d m w"
  define rest where "rest = run pl v evs (fst r)"
  have run_eq: "run pl v (ev # evs) w =
      (fst rest, (case snd r of Published s \<Rightarrow> [s] | _ \<Rightarrow> []) @ snd rest)"
    by (simp add: ev r_def rest_def Let_def)
  have step1: "take (length (fst w)) (fst (fst r)) = fst w"
    and step2: "length (fst w) \<le> length (fst (fst r))"
    using onmessage_heap[of w pl v d m] by (simp_all add: r_def)
  have step3: "titans s = length (fst w) \<and> length (fst (fst r)) = Suc (length (fst w))"
    if "snd r = Published s" for s
    using that onmessage_heap[of w pl v d m s] by (simp add: r_def)
  note ih = Cons.IH[of "fst r", folded rest_def]
  have pre: "take (length (fst w)) (fst (fst rest)) = fst w"
  proof -
    have "take (length (fst w)) (fst (fst rest))
        = take (length (fst w)) (take (length (fst (fst r))) (fst (fst rest)))"
      using step2 by (simp add: min_def)
    then show ?thesis using ih step1 by simp
  qed
  have len: "length (fst w) \<le> length (fst (fst rest))"
    using ih step2 by linarith
  show ?case
  proof (cases "snd r")
    case (Published s)
    from step3[OF Published]
    have s: "titans s = length (fst w)" "length (fst (fst r)) = Suc (length (fst w))"
      by simp_all
    show ?thesis unfolding run_eq using Published pre len ih s
      by (auto simp: less_eq_Suc_le)
  next
    case (Threw err)
    then show ?thesis unfolding run_eq using pre len ih step2 by auto
  next
    case NotPublished
    then show ?thesis unfolding run_eq using pre len ih step2 by auto
  qed
qed

lemma distinct_map_nth:
  assumes "distinct (map f xs)" and "i < length xs" and "j < length xs" and "i \<noteq> j"
  shows "f (xs ! j) \<noteq> f (xs ! i)"
  using assms by (metis distinct_conv_nth length_map nth_map)

lemma mutate_other_cell: "r \<noteq> titans s \<Longrightarrow> fst (mutate mu (h, s)) ! r = h ! r"
  by (cases mu) simp_all

lemma mutate_scalar: "\<not> array_mutation mu \<Longrightarrow> fst (mutate mu (h, s)) = h"
  by (cases mu) simp_all

text \<open>
  Claim C1, as amended. A published snapshot carries copies of the scalar fields of the
  engine state and a reference to an array of rows allocated in the tick that published
  it. For every sequence of deliveries: a snapshot handed out is never changed by later
  ingests, in its fields or in its rows, also after subscribers have mutated rows in
  place; the snapshots of different ticks refer to different arrays, so mutating one
  snapshot, its rows included, never changes a snapshot of another tick; and assigning
  a scalar field of a snapshot changes nothing but that snapshot.
\<close>

theorem snapshot_isolation:
  assumes r1: "run pl v evs1 w0 = (w1, snaps1)"
      and same: "length h1 = length (fst w1)"
      and r2: "run pl v evs2 (h1, snd w1) = (w2, snaps2)"
  shows "(\<forall>s \<in> set snaps1. snapshot_view (fst w2) s = snapshot_view h1 s)
       \<and> distinct (map titans (snaps1 @ snaps2))
       \<and> (\<forall>i < length (snaps1 @ snaps2). \<forall>j < length (snaps1 @ snaps2). i \<noteq> j \<longrightarrow>
            snapshot_view (fst (mutate mu (fst w2, (snaps1 @ snaps2) ! i)))
              ((snaps1 @ snaps2) ! j)
            = snapshot_view (fst w2) ((snaps1 @ snaps2) ! j))
       \<and> (\<not> array_mutation mu \<longrightarrow> fst (mutate mu (fst w2, s)) = fst w2)"
proof -
  have h1: "sorted_wrt (<) (map titans snaps1)"
    and b1: "\<forall>s \<in> set snaps1. titans s < length h1"
    using run_heap[of w0 pl v evs1] r1 same by simp_all
  have pre: "take (length h1) (fst w2) = h1"
    and h2: "sorted_wrt (<) (map titans snaps2)"
    and b2: "\<forall>s \<in> set snaps2. length h1 \<le> titans s"
    using run_heap[of "(h1, snd w1)" pl v evs2] r2 by simp_all
  have later: "\<forall>s \<in> set snaps1. snapshot_view (fst w2) s = snapshot_view h1 s"
  proof
    fix s assume "s \<in> set snaps1"
    then have "titans s < length h1" using b1 by blast
    then have "fst w2 ! titans s = take (length h1) (fst w2) ! titans s" by simp
    then show "snapshot_view (fst w2) s = snapshot_view h1 s"
      by (simp add: snapshot_view_def pre)
  qed
  have "sorted_wrt (<) (map titans (snaps1 @ snaps2))"
    using h1 h2 b1 b2 by (fastforce simp: sorted_wrt_append)
  then have dist: "distinct (map titans (snaps1 @ snaps2))"
    by (simp add: strict_sorted_iff)
  have others: "\<forall>i < length (snaps1 @ snaps2). \<forall>j < length (snaps1 @ snaps2). i \<noteq> j \<longrightarrow>
            snapshot_view (fst (mutate mu (fst w2, (snaps1 @ snaps2) ! i)))
              ((snaps1 @ snaps2) ! j)
            = snapshot_view (fst w2) ((snaps1 @ snaps2) ! j)"
  proof (intro allI impI)
    fix i j
    assume i: "i < length (snaps1 @ snaps2)" and j: "j < length (snaps1 @ snaps2)"
       and ij: "i \<noteq> j"
    have "titans ((snaps1 @ snaps2) ! j) \<noteq> titans ((snaps1 @ snaps2) ! i)"
      using dist i j ij by (rule distinct_map_nth)
    then show "snapshot_view (fst (mutate mu (fst w2, (snaps1 @ snaps2) ! i)))
              ((snaps1 @ snaps2) ! j)
            = snapshot_view (fst w2) ((snaps1 @ snaps2) ! j)"
      by (simp add: snapshot_view_def mutate_other_cell)
  qed
  show ?thesis using later dist others mutate_scalar[of mu "fst w2" s] by blast
qed

lemma first_tick_eval:
  "first_tick =
     (([initial_titans_A,
        [\<lparr>name = ''CTD (Kinetic)'', display_value = ToFixed (Fin 0) 1, active = False\<rparr>,
         \<lparr>name = ''OBI (Pressure)'', display_value = ToFixed (Fin 0) 2, active = False\<rparr>,
         \<lparr>name = ''LQ  (Elasticity)'', display_value = ToFixed (Fin 0) 2, active = False\<rparr>,
         \<lparr>name = ''BASIS'', display_value = Text ''0.01%'', active = True\<rparr>,
         \<lparr>name = ''WA  (Whale)'', display_value = Text ''---'', active = False\<rparr>]],
       \<lparr>state = initial_state\<lparr>titans := 1\<rparr>, trades = [], book_bids = [], book_asks = [],
        imbalance_hist = [], onUpdate = True\<rparr>),
      [initial_state\<lparr>titans := 1\<rparr>])"
  by (simp add: first_tick_def new_VoidEngine_def publish_def Let_def updateRegime_def
        updateRegime_A_def calculateMonolith_def calculateMonolith_A_def initial_state_def
        gt_n_def lit_03)

lemma emptied_heap_eval: "emptied_heap = [initial_titans_A, []]"
  by (simp add: emptied_heap_def first_tick_eval initial_state_def)

theorem snapshot_isolation_witness:
  "run reference_platform VariantA [(0, OtherMsg)] (new_VoidEngine VariantA True)
     = (fst first_tick, snd first_tick)
   \<and> length emptied_heap = length (fst (fst first_tick))
   \<and> run reference_platform VariantA [(0, OtherMsg)] (emptied_heap, snd (fst first_tick))
       = (fst second_tick, snd second_tick)
   \<and> snd first_tick = [initial_state\<lparr>titans := 1\<rparr>]
   \<and> snapshot_view (fst (fst second_tick)) (initial_state\<lparr>titans := 1\<rparr>)
       = snapshot_view emptied_heap (initial_state\<lparr>titans := 1\<rparr>)
   \<and> distinct (map titans (snd first_tick @ snd second_tick))"
proof -
  have p1: "run reference_platform VariantA [(0, OtherMsg)] (new_VoidEngine VariantA True)
              = (fst first_tick, snd first_tick)"
    by (simp add: first_tick_def)
  have p2: "length emptied_heap = length (fst (fst first_tick))"
    by (simp add: emptied_heap_eval first_tick_eval)
  have p3: "run reference_platform VariantA [(0, OtherMsg)] (emptied_heap, snd (fst first_tick))
              = (fst second_tick, snd second_tick)"
    by (simp add: second_tick_def)
  have s1: "snd first_tick = [initial_state\<lparr>titans := 1\<rparr>]"
    by (simp add: first_tick_eval)
  note iso = snapshot_isolation[OF p1 p2 p3]
  have "snapshot_view (fst (fst second_tick)) (initial_state\<lparr>titans := 1\<rparr>)
       = snapshot_view emptied_heap (initial_state\<lparr>titans := 1\<rparr>)"
    using iso s1 by simp
  moreover have "distinct (map titans (snd first_tick @ snd second_tick))"
    using iso by blast
  ultimately show ?thesis using p1 p2 p3 s1 by blast
qed

text \<open>
  The claim as first stated fails for the engine's own state: the snapshot shares its
  array with the state that published it. After one delivery to a new engine with a
  subscriber, emptying the rows of the snapshot just received empties the rows of the
  engine's state.
\<close>

theorem snapshot_titans_shared:
  "snd first_tick = [state (snd (fst first_tick))]
   \<and> emptied_heap
       = fst (mutate (SetTitansRows []) (fst (fst first_tick), hd (snd first_tick)))
   \<and> engine_view (emptied_heap, snd (fst first_tick)) \<noteq> engine_view (fst first_tick)"
  by (simp add: emptied_heap_def first_tick_eval engine_view_def initial_state_def)

section \<open>Messages on which the handler raises\<close>















end
